theory Spec2Isabelle
  imports Main "HOL-Library.Multiset"
begin

section \<open>Data model (types.ts as used by the three classes)\<close>

text \<open>
  Opaque JavaScript values (the connection context, the GraphQL query, an execution
  result, an event payload) are strings: no claim looks inside them.
  Field names follow the source; a name that two records share, or that clashes with a
  HOL constant, carries a suffix.
\<close>

record IConnectionData =
  endpoint :: string
  context_conn :: string
  isInitialized :: bool

record IConnection =
  id_conn :: string
  data_conn :: IConnectionData

text \<open>\<^verbatim>\<open>OperationRequest & { operationId: string }\<close>\<close>

record OperationRequest =
  query :: string
  variables :: string
  operationName :: "string option"
  operationId_req :: string

record ISubscriber =
  connection :: IConnection
  operation :: OperationRequest
  event :: string
  operationId :: string

record ISubscriptionEvent =
  event_name :: string
  payload :: string

text \<open>
  A thrown JavaScript value. \<open>ConnectionNotFoundError\<close> is the class of the connection
  manager; \<open>Thrown\<close> is any other value, with its \<^verbatim>\<open>statusCode\<close> property
  when it has a numeric one.
\<close>

datatype error =
    ConnectionNotFoundError string
  | Thrown "int option" string

fun statusCode :: "error \<Rightarrow> int option" where
  "statusCode (ConnectionNotFoundError m) = None"
| "statusCode (Thrown c m) = c"


section \<open>SubscriptionManager\<close>

text \<open>
  The class holds the \<^verbatim>\<open>Map<string, ISubscriber[]>\<close> and the two naming
  functions given to the constructor. The Map is a partial function from keys to lists:
  no operation depends on the order of its keys.
\<close>

record SubscriptionManager =
  subscriptions :: "string \<rightharpoonup> ISubscriber list"
  getSubscriptionNameFromEvent :: "ISubscriptionEvent \<Rightarrow> string"
  getSubscriptionNameFromConnection :: "string \<Rightarrow> IConnection \<Rightarrow> string"

text \<open>The constructor with its defaults; \<open>None\<close> stands for an option left out.\<close>

definition new_SubscriptionManager ::
  "(ISubscriptionEvent \<Rightarrow> string) option \<Rightarrow> (string \<Rightarrow> IConnection \<Rightarrow> string) option \<Rightarrow>
   (string \<rightharpoonup> ISubscriber list) option \<Rightarrow> SubscriptionManager" where
  "new_SubscriptionManager fromEvent fromConnection subscriptionManagerStorage =
     \<lparr> subscriptions = (case subscriptionManagerStorage of None \<Rightarrow> Map.empty | Some m \<Rightarrow> m),
       getSubscriptionNameFromEvent = (case fromEvent of None \<Rightarrow> event_name | Some f \<Rightarrow> f),
       getSubscriptionNameFromConnection =
         (case fromConnection of None \<Rightarrow> (\<lambda>name c. name) | Some f \<Rightarrow> f) \<rparr>"

text \<open>
  \<^verbatim>\<open>subscribersByEvent\<close>: the async iterable is the list of the batches it yields.
  \<^verbatim>\<open>createAsyncIterator([subscribers])\<close> yields the one element of that array.
\<close>

definition subscribersByEvent :: "SubscriptionManager \<Rightarrow> ISubscriptionEvent \<Rightarrow> ISubscriber list list" where
  "subscribersByEvent sm ev =
     (let name = getSubscriptionNameFromEvent sm ev;
          subs = (case subscriptions sm name of None \<Rightarrow> [] | Some l \<Rightarrow> l);
          subscribers = filter (\<lambda>subscriber. event subscriber = name) subs
      in [subscribers])"

text \<open>The body of \<^verbatim>\<open>names.forEach\<close> in \<^verbatim>\<open>subscribe\<close>, for one name.\<close>

definition subscribe_name ::
  "IConnection \<Rightarrow> OperationRequest \<Rightarrow> string \<Rightarrow> SubscriptionManager \<Rightarrow> SubscriptionManager" where
  "subscribe_name c opr n sm =
     (let name = getSubscriptionNameFromConnection sm n c;
          subscription = \<lparr> connection = c, operation = opr, event = name,
                           operationId = operationId_req opr \<rparr>
      in case subscriptions sm name of
           None \<Rightarrow> sm\<lparr> subscriptions := (subscriptions sm)(name \<mapsto> [subscription]) \<rparr>
         | Some subs \<Rightarrow>
             (if find (\<lambda>s. id_conn (connection s) = id_conn c) subs = None
              then sm\<lparr> subscriptions := (subscriptions sm)(name \<mapsto> subs @ [subscription]) \<rparr>
              else sm))"

definition subscribe ::
  "string list \<Rightarrow> IConnection \<Rightarrow> OperationRequest \<Rightarrow> SubscriptionManager \<Rightarrow> SubscriptionManager" where
  "subscribe names c opr sm = fold (subscribe_name c opr) names sm"

definition unsubscribe :: "ISubscriber \<Rightarrow> SubscriptionManager \<Rightarrow> SubscriptionManager" where
  "unsubscribe subscriber sm =
     (case subscriptions sm (event subscriber) of
        None \<Rightarrow> sm
      | Some subs \<Rightarrow>
          sm\<lparr> subscriptions := (subscriptions sm)(event subscriber \<mapsto>
                filter (\<lambda>s. id_conn (connection s) \<noteq> id_conn (connection subscriber)) subs) \<rparr>)"

text \<open>
  \<^verbatim>\<open>this.subscriptions.forEach((subscribers, event) => this.subscriptions.set(event, ...))\<close>:
  every key present is set, once, to its filtered list.
\<close>

definition unsubscribeOperation :: "string \<Rightarrow> string \<Rightarrow> SubscriptionManager \<Rightarrow> SubscriptionManager" where
  "unsubscribeOperation connectionId opId sm =
     sm\<lparr> subscriptions := (\<lambda>key. map_option
            (filter (\<lambda>subscriber. id_conn (connection subscriber) \<noteq> connectionId \<and>
                                  operationId subscriber \<noteq> opId))
            (subscriptions sm key)) \<rparr>"

definition unsubscribeAllByConnectionId :: "string \<Rightarrow> SubscriptionManager \<Rightarrow> SubscriptionManager" where
  "unsubscribeAllByConnectionId connectionId sm =
     sm\<lparr> subscriptions := (\<lambda>key. map_option
            (filter (\<lambda>s. id_conn (connection s) = connectionId))
            (subscriptions sm key)) \<rparr>"


section \<open>ApiGatewayConnectionManager\<close>

text \<open>
  The transport client \<^verbatim>\<open>ApiGatewayManagementApi\<close> is the configuration it was built
  with. The network is a parameter: \<open>post client connectionId data\<close> is the outcome of
  \<^verbatim>\<open>client.postToConnection({ ConnectionId, Data }).promise()\<close>, \<open>None\<close> when the
  promise resolves and \<open>Some e\<close> when it rejects with \<open>e\<close>.
\<close>

record ApiGatewayManagementApi =
  endpoint_api :: string
  apiVersion :: string

type_synonym transport = "ApiGatewayManagementApi \<Rightarrow> string \<Rightarrow> string \<Rightarrow> error option"

record ApiGatewayConnectionManager =
  apiGatewayManager :: "ApiGatewayManagementApi option"
  connections :: "string \<rightharpoonup> IConnection"

definition new_ApiGatewayConnectionManager ::
  "(string \<rightharpoonup> IConnection) option \<Rightarrow> ApiGatewayConnectionManager" where
  "new_ApiGatewayConnectionManager connectionManagerStorage =
     \<lparr> apiGatewayManager = None,
       connections = (case connectionManagerStorage of None \<Rightarrow> Map.empty | Some m \<Rightarrow> m) \<rparr>"

definition hydrateOrRegisterConnection ::
  "string \<Rightarrow> string \<Rightarrow> ApiGatewayConnectionManager \<Rightarrow> IConnection \<times> ApiGatewayConnectionManager" where
  "hydrateOrRegisterConnection connectionId ep cm =
     (case connections cm connectionId of
        Some c \<Rightarrow> (c, cm)
      | None \<Rightarrow>
          (let c = \<lparr> id_conn = connectionId,
                     data_conn = \<lparr> endpoint = ep, context_conn = ''{}'', isInitialized = True \<rparr> \<rparr>
           in (c, cm\<lparr> connections := (connections cm)(connectionId \<mapsto> c) \<rparr>)))"

definition hydrateConnection ::
  "string \<Rightarrow> ApiGatewayConnectionManager \<Rightarrow> (error + IConnection) \<times> ApiGatewayConnectionManager" where
  "hydrateConnection connectionId cm =
     (case connections cm connectionId of
        None \<Rightarrow> (Inl (ConnectionNotFoundError (''Connection '' @ connectionId @ '' not found'')), cm)
      | Some c \<Rightarrow> (Inr c, cm))"

definition setConnectionData ::
  "IConnectionData \<Rightarrow> IConnection \<Rightarrow> ApiGatewayConnectionManager \<Rightarrow> ApiGatewayConnectionManager" where
  "setConnectionData d c cm =
     cm\<lparr> connections := (connections cm)(id_conn c \<mapsto> \<lparr> id_conn = id_conn c, data_conn = d \<rparr>) \<rparr>"

definition registerConnection ::
  "string \<Rightarrow> string \<Rightarrow> ApiGatewayConnectionManager \<Rightarrow> IConnection \<times> ApiGatewayConnectionManager" where
  "registerConnection connectionId ep cm =
     (let c = \<lparr> id_conn = connectionId,
                data_conn = \<lparr> endpoint = ep, context_conn = ''{}'', isInitialized = False \<rparr> \<rparr>
      in (c, cm\<lparr> connections := (connections cm)(connectionId \<mapsto> c) \<rparr>))"

definition unregisterConnection ::
  "IConnection \<Rightarrow> ApiGatewayConnectionManager \<Rightarrow> ApiGatewayConnectionManager" where
  "unregisterConnection c cm = cm\<lparr> connections := (connections cm)(id_conn c := None) \<rparr>"

definition createApiGatewayManager ::
  "string \<Rightarrow> ApiGatewayConnectionManager \<Rightarrow> ApiGatewayManagementApi \<times> ApiGatewayConnectionManager" where
  "createApiGatewayManager ep cm =
     (case apiGatewayManager cm of
        Some m \<Rightarrow> (m, cm)
      | None \<Rightarrow>
          (let m = \<lparr> endpoint_api = ep, apiVersion = ''2018-11-29'' \<rparr>
           in (m, cm\<lparr> apiGatewayManager := Some m \<rparr>)))"

text \<open>
  \<^verbatim>\<open>sendToConnection\<close>: \<open>Inr ()\<close> when the promise resolves, \<open>Inl e\<close> when it rejects.
  The test \<^verbatim>\<open>e && e.statusCode === 410\<close> is \<open>statusCode e = Some 410\<close>.
\<close>

definition sendToConnection ::
  "transport \<Rightarrow> IConnection \<Rightarrow> string \<Rightarrow> ApiGatewayConnectionManager \<Rightarrow>
   (error + unit) \<times> ApiGatewayConnectionManager" where
  "sendToConnection post c pl cm =
     (let (m, cm1) = createApiGatewayManager (endpoint (data_conn c)) cm
      in case post m (id_conn c) pl of
           None \<Rightarrow> (Inr (), cm1)
         | Some e \<Rightarrow>
             (if statusCode e = Some 410 then (Inr (), unregisterConnection c cm1)
              else (Inl e, cm1)))"


section \<open>EventProcessor\<close>

text \<open>
  \<open>onError e\<close> is \<open>None\<close> when the callback returns and \<open>Some e'\<close> when it throws
  \<open>e'\<close>. The default of the constructor, \<^verbatim>\<open>console.log\<close>, returns.
\<close>

record EventProcessor =
  onError :: "error \<Rightarrow> error option"
  debug :: bool

definition new_EventProcessor :: "(error \<Rightarrow> error option) option \<Rightarrow> bool option \<Rightarrow> EventProcessor" where
  "new_EventProcessor onErr dbg =
     \<lparr> onError = (case onErr of None \<Rightarrow> (\<lambda>e. None) | Some f \<Rightarrow> f),
       debug = (case dbg of None \<Rightarrow> False | Some b \<Rightarrow> b) \<rparr>"

text \<open>
  What the handler imports and does not define is a parameter, gathered in \<open>Server\<close>:
  \<^verbatim>\<open>server.createGraphQLServerOptions\<close>, \<^verbatim>\<open>execute\<close> (called with
  \<^verbatim>\<open>registerSubscriptions: false\<close>), \<^verbatim>\<open>formatMessage\<close>,
  \<^verbatim>\<open>SERVER_EVENT_TYPES.GQL_DATA\<close> and the network behind the connection manager.
  The lambda context is fixed for one invocation and is part of these functions.
  The output of \<^verbatim>\<open>execute\<close> is either not an async iterable, or an iterator of which
  the handler awaits the first \<^verbatim>\<open>next()\<close>: it rejects, or resolves with
  \<^verbatim>\<open>result.value\<close> (\<open>None\<close> when that is null or undefined).
\<close>

record GraphQLServerOptions =
  schema :: string
  context_opts :: string

datatype ExecuteOutput =
    NotAsyncIterable
  | AsyncIterable "error + string option"

record OperationMessage =
  id_msg :: string
  payload_msg :: string
  type_msg :: string

record Server =
  createGraphQLServerOptions ::
    "ISubscriptionEvent \<Rightarrow> IConnection \<Rightarrow> OperationRequest \<Rightarrow> error + GraphQLServerOptions"
  execute ::
    "GraphQLServerOptions \<Rightarrow> ISubscriptionEvent \<Rightarrow> IConnection \<Rightarrow> OperationRequest \<Rightarrow>
     error + ExecuteOutput"
  formatMessage :: "OperationMessage \<Rightarrow> string"
  GQL_DATA :: string
  postToConnection :: transport

text \<open>
  The state one invocation of the handler works on: the connection manager, and the two
  things an observer counts, the calls of \<^verbatim>\<open>sendToConnection\<close> (with how each
  settled) and the calls of \<^verbatim>\<open>onError\<close>.
\<close>

record SendCall =
  to :: IConnection
  message :: string
  settled :: "error + unit"

record Dispatch =
  connectionManager :: ApiGatewayConnectionManager
  sendCalls :: "SendCall list"
  onErrorCalls :: "error list"

text \<open>
  Lines 80 to 116 of one subscriber's async function: up to the value of the first
  result. \<open>Inl e\<close>: the function has thrown; \<open>Inr None\<close>: nothing to send;
  \<open>Inr (Some v)\<close>: \<^verbatim>\<open>result.value\<close> is \<open>v\<close>.
\<close>

definition resolution :: "Server \<Rightarrow> ISubscriptionEvent \<Rightarrow> ISubscriber \<Rightarrow> error + string option" where
  "resolution srv ev subscriber =
     (case createGraphQLServerOptions srv ev (connection subscriber) (operation subscriber) of
        Inl e \<Rightarrow> Inl e
      | Inr options \<Rightarrow>
          (case execute srv options ev (connection subscriber) (operation subscriber) of
             Inl e \<Rightarrow> Inl e
           | Inr NotAsyncIterable \<Rightarrow> Inr None
           | Inr (AsyncIterable result) \<Rightarrow> result))"

text \<open>
  The whole async function of one subscriber, run from its start to the settlement of the
  promise it returns with no other branch in between.
\<close>

definition branch ::
  "Server \<Rightarrow> ISubscriptionEvent \<Rightarrow> ISubscriber \<Rightarrow> Dispatch \<Rightarrow> (error + unit) \<times> Dispatch" where
  "branch srv ev subscriber st =
     (case resolution srv ev subscriber of
        Inl e \<Rightarrow> (Inl e, st)
      | Inr None \<Rightarrow> (Inr (), st)
      | Inr (Some v) \<Rightarrow>
          (let msg = formatMessage srv \<lparr> id_msg = operationId subscriber, payload_msg = v,
                                         type_msg = GQL_DATA srv \<rparr>;
               (r, cm) = sendToConnection (postToConnection srv) (connection subscriber) msg
                           (connectionManager st)
           in (r, st\<lparr> connectionManager := cm,
                      sendCalls := sendCalls st @
                        [\<lparr> to = connection subscriber, message = msg, settled = r \<rparr>] \<rparr>)))"

text \<open>
  \<^verbatim>\<open>subscribers.map(async (subscriber) => ...).map((promise) => promise.catch(this.onError))\<close>
  and \<^verbatim>\<open>Promise.all\<close>. The branches run on one event loop and give way to each other
  at their awaits, in an order the source does not fix. A branch is therefore a task with
  a stage, and a schedule (a list of task numbers) says which task takes its next step:
  \<^item> \<open>Running\<close>: the task awaits the options, \<^verbatim>\<open>execute\<close> or the first \<^verbatim>\<open>next()\<close>.
    These touch nothing shared, so one step takes the task to the call of
    \<^verbatim>\<open>sendToConnection\<close>, which obtains the transport client before its await.
  \<^item> \<open>Posting msg m\<close>: \<^verbatim>\<open>postToConnection\<close> of \<open>msg\<close> through client \<open>m\<close> is in
    flight; the step is its settlement and the rest of \<^verbatim>\<open>sendToConnection\<close>.
  \<^item> \<open>Rejected e\<close>: the promise of the branch has rejected; the step is the handler that
    \<^verbatim>\<open>catch\<close> attached, the call of \<^verbatim>\<open>onError\<close>.
  \<^item> \<open>Done b c\<close>: the promise of the branch settled as \<open>b\<close>, the promise \<^verbatim>\<open>catch\<close>
    returned settled as \<open>c\<close>.
\<close>

datatype stage =
    Running
  | Posting string ApiGatewayManagementApi
  | Rejected error
  | Done "error + unit" "error + unit"

text \<open>
  The tasks of one batch, the state they share, and the reason \<^verbatim>\<open>Promise.all\<close> rejected
  with: that of the first promise to reject in time.
\<close>

record Fanout =
  tasks :: "(ISubscriber \<times> stage) list"
  dispatch :: Dispatch
  rejection :: "error option"

text \<open>\<^verbatim>\<open>sendToConnection\<close> from the settlement of the post on (the catch block).\<close>

definition sendToConnection_after_post ::
  "error option \<Rightarrow> IConnection \<Rightarrow> ApiGatewayConnectionManager \<Rightarrow>
   (error + unit) \<times> ApiGatewayConnectionManager" where
  "sendToConnection_after_post outcome c cm =
     (case outcome of
        None \<Rightarrow> (Inr (), cm)
      | Some e \<Rightarrow>
          (if statusCode e = Some 410 then (Inr (), unregisterConnection c cm)
           else (Inl e, cm)))"

text \<open>One step of the task of \<open>subscriber\<close> at stage \<open>stg\<close>.\<close>

definition advance ::
  "EventProcessor \<Rightarrow> Server \<Rightarrow> ISubscriptionEvent \<Rightarrow> ISubscriber \<Rightarrow> stage \<Rightarrow> Dispatch \<Rightarrow>
   error option \<Rightarrow> stage \<times> Dispatch \<times> error option" where
  "advance ep srv ev subscriber stg st rej =
     (case stg of
        Running \<Rightarrow>
          (case resolution srv ev subscriber of
             Inl e \<Rightarrow> (Rejected e, st, rej)
           | Inr None \<Rightarrow> (Done (Inr ()) (Inr ()), st, rej)
           | Inr (Some v) \<Rightarrow>
               (let msg = formatMessage srv \<lparr> id_msg = operationId subscriber, payload_msg = v,
                                              type_msg = GQL_DATA srv \<rparr>;
                    (m, cm) = createApiGatewayManager (endpoint (data_conn (connection subscriber)))
                                (connectionManager st)
                in (Posting msg m, st\<lparr> connectionManager := cm \<rparr>, rej)))
      | Posting msg m \<Rightarrow>
          (let (r, cm) = sendToConnection_after_post
                           (postToConnection srv m (id_conn (connection subscriber)) msg)
                           (connection subscriber) (connectionManager st);
               st1 = st\<lparr> connectionManager := cm,
                         sendCalls := sendCalls st @
                           [\<lparr> to = connection subscriber, message = msg, settled = r \<rparr>] \<rparr>
           in case r of
                Inl e \<Rightarrow> (Rejected e, st1, rej)
              | Inr u \<Rightarrow> (Done (Inr u) (Inr u), st1, rej))
      | Rejected e \<Rightarrow>
          (case onError ep e of
             None \<Rightarrow> (Done (Inl e) (Inr ()), st\<lparr> onErrorCalls := onErrorCalls st @ [e] \<rparr>, rej)
           | Some e' \<Rightarrow>
               (Done (Inl e) (Inl e'), st\<lparr> onErrorCalls := onErrorCalls st @ [e] \<rparr>,
                (case rej of None \<Rightarrow> Some e' | Some x \<Rightarrow> Some x)))
      | Done b c \<Rightarrow> (stg, st, rej))"

text \<open>The task numbered \<open>i\<close> takes a step; a number that names no task does nothing.\<close>

definition step :: "EventProcessor \<Rightarrow> Server \<Rightarrow> ISubscriptionEvent \<Rightarrow> nat \<Rightarrow> Fanout \<Rightarrow> Fanout" where
  "step ep srv ev i f =
     (if i < length (tasks f)
      then (case tasks f ! i of
              (subscriber, stg) \<Rightarrow>
                (case advance ep srv ev subscriber stg (dispatch f) (rejection f) of
                   (stg1, st1, rej1) \<Rightarrow>
                     \<lparr> tasks = (tasks f)[i := (subscriber, stg1)], dispatch = st1,
                       rejection = rej1 \<rparr>))
      else f)"

definition fanout :: "ISubscriber list \<Rightarrow> Dispatch \<Rightarrow> Fanout" where
  "fanout subscribers st =
     \<lparr> tasks = map (\<lambda>subscriber. (subscriber, Running)) subscribers, dispatch = st,
       rejection = None \<rparr>"

definition run ::
  "EventProcessor \<Rightarrow> Server \<Rightarrow> ISubscriptionEvent \<Rightarrow> nat list \<Rightarrow> ISubscriber list \<Rightarrow> Dispatch \<Rightarrow>
   Fanout" where
  "run ep srv ev sch subscribers st = fold (step ep srv ev) sch (fanout subscribers st)"

fun finished :: "ISubscriber \<times> stage \<Rightarrow> bool" where
  "finished (s, Done b c) = True"
| "finished (s, stg) = False"

text \<open>
  \<^verbatim>\<open>await Promise.all(promises)\<close> after the steps of a schedule: rejected with the first
  rejection, resolved when every promise has resolved, and \<open>None\<close> while neither holds
  (the await has not returned).
\<close>

definition Promise_all :: "Fanout \<Rightarrow> (error + unit) option" where
  "Promise_all f =
     (case rejection f of
        Some e \<Rightarrow> Some (Inl e)
      | None \<Rightarrow> if list_all finished (tasks f) then Some (Inr ()) else None)"

text \<open>
  The \<^verbatim>\<open>for await\<close> loop over the batches, with one schedule for each batch (no steps
  when the schedules run out); a rejected await leaves the handler.
\<close>

fun for_await ::
  "EventProcessor \<Rightarrow> Server \<Rightarrow> ISubscriptionEvent \<Rightarrow> ISubscriber list list \<Rightarrow> nat list list \<Rightarrow>
   Dispatch \<Rightarrow> ((error + unit) \<times> Dispatch) option" where
  "for_await ep srv ev [] schs st = Some (Inr (), st)"
| "for_await ep srv ev (subscribers # batches) schs st =
     (let f = run ep srv ev (case schs of [] \<Rightarrow> [] | sch # rest \<Rightarrow> sch) subscribers st
      in case Promise_all f of
           None \<Rightarrow> None
         | Some (Inl e) \<Rightarrow> Some (Inl e, dispatch f)
         | Some (Inr u) \<Rightarrow> for_await ep srv ev batches (tl schs) (dispatch f))"

definition createHandler ::
  "EventProcessor \<Rightarrow> Server \<Rightarrow> SubscriptionManager \<Rightarrow> ISubscriptionEvent \<Rightarrow> nat list list \<Rightarrow>
   Dispatch \<Rightarrow> ((error + unit) \<times> Dispatch) option" where
  "createHandler ep srv sm lambdaEvent schs st =
     for_await ep srv lambdaEvent (subscribersByEvent sm lambdaEvent) schs st"


section \<open>Notions the properties are stated with\<close>

text \<open>The list stored under a key, empty when the key is absent.\<close>

definition entries :: "SubscriptionManager \<Rightarrow> string \<Rightarrow> ISubscriber list" where
  "entries sm key = (case subscriptions sm key of None \<Rightarrow> [] | Some l \<Rightarrow> l)"

definition connectionIds :: "ISubscriber list \<Rightarrow> string list" where
  "connectionIds subs = map (\<lambda>s. id_conn (connection s)) subs"

definition ofConnection :: "string \<Rightarrow> ISubscriber list \<Rightarrow> ISubscriber list" where
  "ofConnection cid subs = filter (\<lambda>s. id_conn (connection s) = cid) subs"

text \<open>How the first part of a branch ends, for counting the branches of a batch.\<close>

definition throws :: "Server \<Rightarrow> ISubscriptionEvent \<Rightarrow> ISubscriber \<Rightarrow> bool" where
  "throws srv ev s = isl (resolution srv ev s)"

definition skips :: "Server \<Rightarrow> ISubscriptionEvent \<Rightarrow> ISubscriber \<Rightarrow> bool" where
  "skips srv ev s = (resolution srv ev s = Inr None)"

definition delivers :: "Server \<Rightarrow> ISubscriptionEvent \<Rightarrow> ISubscriber \<Rightarrow> bool" where
  "delivers srv ev s = (case resolution srv ev s of Inr (Some v) \<Rightarrow> True | _ \<Rightarrow> False)"

text \<open>The envelope a branch sends for the value \<open>v\<close>.\<close>

definition envelope :: "Server \<Rightarrow> ISubscriber \<Rightarrow> string \<Rightarrow> string" where
  "envelope srv s v =
     formatMessage srv \<lparr> id_msg = operationId s, payload_msg = v, type_msg = GQL_DATA srv \<rparr>"


text \<open>The value a delivering branch sends (empty for the other branches).\<close>

definition result_value :: "Server \<Rightarrow> ISubscriptionEvent \<Rightarrow> ISubscriber \<Rightarrow> string" where
  "result_value srv ev s = (case resolution srv ev s of Inr (Some v) \<Rightarrow> v | _ \<Rightarrow> [])"

text \<open>
  What the tasks of a batch account for. A task that has left \<^verbatim>\<open>sendToConnection\<close>
  accounts for one call, to its subscriber's connection, with its envelope, settled as
  the branch did; a task whose \<^verbatim>\<open>catch\<close> handler has run accounts for one call of
  \<^verbatim>\<open>onError\<close>; a task counts as rejected once the promise of its branch has rejected.
\<close>

definition call_of :: "Server \<Rightarrow> ISubscriptionEvent \<Rightarrow> ISubscriber \<Rightarrow> error + unit \<Rightarrow> SendCall" where
  "call_of srv ev s r =
     \<lparr> to = connection s, message = envelope srv s (result_value srv ev s), settled = r \<rparr>"

fun sent :: "Server \<Rightarrow> ISubscriptionEvent \<Rightarrow> ISubscriber \<times> stage \<Rightarrow> SendCall multiset" where
  "sent srv ev (s, Rejected e) = (if delivers srv ev s then {#call_of srv ev s (Inl e)#} else {#})"
| "sent srv ev (s, Done b c) = (if delivers srv ev s then {#call_of srv ev s b#} else {#})"
| "sent srv ev (s, stg) = {#}"

fun reported :: "ISubscriber \<times> stage \<Rightarrow> error multiset" where
  "reported (s, Done (Inl e) c) = {#e#}"
| "reported (s, stg) = {#}"

fun rejected :: "ISubscriber \<times> stage \<Rightarrow> bool" where
  "rejected (s, Rejected e) = True"
| "rejected (s, Done b c) = isl b"
| "rejected (s, stg) = False"

text \<open>
  What holds of every task at every moment: a post in flight carries the envelope of a
  delivering subscriber, and a branch that has settled did so as its execution dictates.
\<close>

fun consistent :: "Server \<Rightarrow> ISubscriptionEvent \<Rightarrow> ISubscriber \<times> stage \<Rightarrow> bool" where
  "consistent srv ev (s, Running) = True"
| "consistent srv ev (s, Posting msg m) =
     (delivers srv ev s \<and> msg = envelope srv s (result_value srv ev s))"
| "consistent srv ev (s, Rejected e) =
     (case resolution srv ev s of Inl e' \<Rightarrow> e = e' | Inr None \<Rightarrow> False | Inr (Some v) \<Rightarrow> True)"
| "consistent srv ev (s, Done b c) =
     (case resolution srv ev s of
        Inl e \<Rightarrow> b = Inl e
      | Inr None \<Rightarrow> b = Inr ()
      | Inr (Some v) \<Rightarrow> True)"

text \<open>How far a task has got: every step of a task that is not done raises it.\<close>

fun rank :: "stage \<Rightarrow> nat" where
  "rank Running = 0"
| "rank (Posting msg m) = 1"
| "rank (Rejected e) = 2"
| "rank (Done b c) = 3"

text \<open>
  Sends made one after the other on the same manager, and the outcome of a send when it
  goes through client \<open>m\<close>.
\<close>

fun sendAll ::
  "transport \<Rightarrow> (IConnection \<times> string) list \<Rightarrow> ApiGatewayConnectionManager \<Rightarrow>
   (error + unit) list \<times> ApiGatewayConnectionManager" where
  "sendAll post [] cm = ([], cm)"
| "sendAll post ((c, pl) # calls) cm =
     (let (r, cm1) = sendToConnection post c pl cm;
          (rs, cm2) = sendAll post calls cm1
      in (r # rs, cm2))"

definition posted ::
  "transport \<Rightarrow> ApiGatewayManagementApi \<Rightarrow> IConnection \<times> string \<Rightarrow> error + unit" where
  "posted post m call =
     (case post m (id_conn (fst call)) (snd call) of
        None \<Rightarrow> Inr ()
      | Some e \<Rightarrow> if statusCode e = Some 410 then Inr () else Inl e)"


text \<open>
  What holds of the tasks and the transport client together. While no client exists no
  delivering task has started its send; once client \<open>m\<close> exists every post in flight
  goes through \<open>m\<close> and every finished send settled as the post through \<open>m\<close> did.
\<close>

fun routed :: "Server \<Rightarrow> ISubscriptionEvent \<Rightarrow> ApiGatewayManagementApi \<Rightarrow> ISubscriber \<times> stage \<Rightarrow> bool" where
  "routed srv ev m (s, Running) = True"
| "routed srv ev m (s, Posting msg m') = (m' = m)"
| "routed srv ev m (s, Rejected e) =
     (delivers srv ev s \<longrightarrow>
      Inl e = posted (postToConnection srv) m (connection s, envelope srv s (result_value srv ev s)))"
| "routed srv ev m (s, Done b c) =
     (delivers srv ev s \<longrightarrow>
      b = posted (postToConnection srv) m (connection s, envelope srv s (result_value srv ev s)))"

fun unsent :: "Server \<Rightarrow> ISubscriptionEvent \<Rightarrow> ISubscriber \<times> stage \<Rightarrow> bool" where
  "unsent srv ev (s, stg) = (delivers srv ev s \<longrightarrow> stg = Running)"

definition one_client :: "Server \<Rightarrow> ISubscriptionEvent \<Rightarrow> Fanout \<Rightarrow> bool" where
  "one_client srv ev f =
     (case apiGatewayManager (connectionManager (dispatch f)) of
        None \<Rightarrow> list_all (unsent srv ev) (tasks f)
      | Some m \<Rightarrow> list_all (routed srv ev m) (tasks f))"

text \<open>
  The errors \<^verbatim>\<open>onError\<close> is owed: the exception of a branch whose execution throws,
  and the error a call of \<^verbatim>\<open>sendToConnection\<close> raised.
\<close>

definition thrown :: "Server \<Rightarrow> ISubscriptionEvent \<Rightarrow> ISubscriber \<Rightarrow> error list" where
  "thrown srv ev s = (case resolution srv ev s of Inl e \<Rightarrow> [e] | Inr r \<Rightarrow> [])"

definition raised :: "SendCall \<Rightarrow> error list" where
  "raised c = (case settled c of Inl e \<Rightarrow> [e] | Inr u \<Rightarrow> [])"

section \<open>Sample values for the evaluated instances\<close>

definition conn :: "string \<Rightarrow> string \<Rightarrow> IConnection" where
  "conn i ep = \<lparr> id_conn = i,
                 data_conn = \<lparr> endpoint = ep, context_conn = ''{}'', isInitialized = True \<rparr> \<rparr>"

definition oper :: "string \<Rightarrow> string \<Rightarrow> OperationRequest" where
  "oper q i = \<lparr> query = q, variables = ''{}'', operationName = None, operationId_req = i \<rparr>"

definition subscriber_of :: "string \<Rightarrow> IConnection \<Rightarrow> OperationRequest \<Rightarrow> ISubscriber" where
  "subscriber_of name c opr =
     \<lparr> connection = c, operation = opr, event = name, operationId = operationId_req opr \<rparr>"

definition manager_with :: "(string \<rightharpoonup> ISubscriber list) \<Rightarrow> SubscriptionManager" where
  "manager_with m = new_SubscriptionManager None None (Some m)"

definition chat :: ISubscriptionEvent where
  "chat = \<lparr> event_name = ''chat'', payload = ''hi'' \<rparr>"

text \<open>
  A server whose engine answers by the query text (\<open>''ok''\<close>: the payload of the event,
  \<open>''null''\<close>: a null value, \<open>''throw''\<close>: an exception, anything else: no iterable) and
  whose network answers by the connection id (\<open>''gone''\<close>: status 410, \<open>''down''\<close>:
  status 500, anything else: success).
\<close>

definition sample_server :: Server where
  "sample_server =
     \<lparr> createGraphQLServerOptions =
         (\<lambda>ev c opr. Inr \<lparr> schema = ''s'', context_opts = context_conn (data_conn c) \<rparr>),
       execute =
         (\<lambda>opts ev c opr.
            if query opr = ''ok'' then Inr (AsyncIterable (Inr (Some (payload ev))))
            else if query opr = ''null'' then Inr (AsyncIterable (Inr None))
            else if query opr = ''throw'' then Inl (Thrown None ''resolver'')
            else Inr NotAsyncIterable),
       formatMessage = (\<lambda>m. type_msg m @ '':'' @ id_msg m @ '':'' @ payload_msg m),
       GQL_DATA = ''data'',
       postToConnection =
         (\<lambda>client cid d.
            if cid = ''gone'' then Some (Thrown (Some 410) ''Gone'')
            else if cid = ''down'' then Some (Thrown (Some 500) ''Internal'')
            else None) \<rparr>"

definition fresh :: Dispatch where
  "fresh = \<lparr> connectionManager = new_ApiGatewayConnectionManager None,
             sendCalls = [], onErrorCalls = [] \<rparr>"

text \<open>Indexes: two connections on one event; two connections on two events with their
  own operation ids; an entry stored under a key that is not its event.\<close>

definition two_on_chat :: SubscriptionManager where
  "two_on_chat = manager_with
     [''chat'' \<mapsto> [subscriber_of ''chat'' (conn ''a'' ''wss://one'') (oper ''ok'' ''1''),
                   subscriber_of ''chat'' (conn ''b'' ''wss://two'') (oper ''ok'' ''1'')]]"

definition two_events :: SubscriptionManager where
  "two_events = manager_with
     [''chat'' \<mapsto> [subscriber_of ''chat'' (conn ''a'' ''wss://one'') (oper ''ok'' ''1''),
                   subscriber_of ''chat'' (conn ''b'' ''wss://two'') (oper ''ok'' ''1'')],
      ''news'' \<mapsto> [subscriber_of ''news'' (conn ''a'' ''wss://one'') (oper ''ok'' ''2''),
                   subscriber_of ''news'' (conn ''b'' ''wss://two'') (oper ''ok'' ''2'')]]"

definition mislabelled :: SubscriptionManager where
  "mislabelled = manager_with
     [''chat'' \<mapsto> [subscriber_of ''news'' (conn ''a'' ''wss://one'') (oper ''ok'' ''1'')]]"

text \<open>A registry holding the connections \<open>gone\<close> and \<open>down\<close>, with no client yet.\<close>

definition registry :: ApiGatewayConnectionManager where
  "registry = new_ApiGatewayConnectionManager
     (Some [''gone'' \<mapsto> conn ''gone'' ''wss://one'', ''down'' \<mapsto> conn ''down'' ''wss://two''])"

text \<open>
  Indexes on \<open>chat\<close> for the handler: one subscriber whose execution gives a null value;
  five subscribers that deliver, throw in execution, give a null value, meet a failing
  send, and meet a stale connection.
\<close>

definition quiet :: SubscriptionManager where
  "quiet = manager_with
     [''chat'' \<mapsto> [subscriber_of ''chat'' (conn ''a'' ''wss://one'') (oper ''null'' ''1'')]]"

definition crowd :: SubscriptionManager where
  "crowd = manager_with
     [''chat'' \<mapsto> [subscriber_of ''chat'' (conn ''a'' ''wss://one'') (oper ''ok'' ''1''),
                   subscriber_of ''chat'' (conn ''b'' ''wss://one'') (oper ''throw'' ''2''),
                   subscriber_of ''chat'' (conn ''c'' ''wss://one'') (oper ''null'' ''3''),
                   subscriber_of ''chat'' (conn ''down'' ''wss://one'') (oper ''ok'' ''4''),
                   subscriber_of ''chat'' (conn ''gone'' ''wss://one'') (oper ''ok'' ''5'')]]"


text \<open>
  A state whose registry holds \<open>gone\<close> and \<open>down\<close>, and two schedules for five tasks:
  one in which the tasks take turns in an order of its own, one in which every task is
  offered three steps.
\<close>

definition busy :: Dispatch where
  "busy = \<lparr> connectionManager = registry, sendCalls = [], onErrorCalls = [] \<rparr>"

definition interleaved :: "nat list" where
  "interleaved = [4, 3, 2, 1, 0, 0, 1, 3, 4, 3]"

definition thrice :: "nat list" where
  "thrice = [0, 1, 2, 3, 4, 0, 1, 2, 3, 4, 0, 1, 2, 3, 4]"


text \<open>A server as the sample one, whose network fails every post made through a client
  for \<open>wss://one\<close> and no other.\<close>

definition picky_server :: Server where
  "picky_server = sample_server
     \<lparr> postToConnection :=
         (\<lambda>client cid d.
            if endpoint_api client = ''wss://one'' then Some (Thrown (Some 500) ''Internal'')
            else None) \<rparr>"

section \<open>Properties of the SubscriptionManager\<close>

lemma subscribe_name_config [simp]:
  "getSubscriptionNameFromConnection (subscribe_name c opr n sm) = getSubscriptionNameFromConnection sm"
  "getSubscriptionNameFromEvent (subscribe_name c opr n sm) = getSubscriptionNameFromEvent sm"
  by (simp_all add: subscribe_name_def Let_def split: option.splits)

lemma subscribe_config [simp]:
  "getSubscriptionNameFromConnection (subscribe names c opr sm) = getSubscriptionNameFromConnection sm"
  "getSubscriptionNameFromEvent (subscribe names c opr sm) = getSubscriptionNameFromEvent sm"
  unfolding subscribe_def by (induction names arbitrary: sm) simp_all

lemma find_None_conn:
  "(find (\<lambda>s. id_conn (connection s) = cid) subs = None) = (cid \<notin> set (connectionIds subs))"
  by (auto simp: find_None_iff connectionIds_def)

lemma entries_subscribe_name:
  "entries (subscribe_name c opr n sm) key =
     (if key = getSubscriptionNameFromConnection sm n c \<and> id_conn c \<notin> set (connectionIds (entries sm key))
      then entries sm key @ [subscriber_of key c opr]
      else entries sm key)"
  by (auto simp: subscribe_name_def entries_def Let_def find_None_conn subscriber_of_def
           connectionIds_def split: option.splits)

lemma subscribe_name_distinct:
  "distinct (connectionIds (entries sm key)) \<Longrightarrow>
   distinct (connectionIds (entries (subscribe_name c opr n sm) key))"
  by (auto simp: entries_subscribe_name connectionIds_def subscriber_of_def)

lemma subscribe_distinct:
  "distinct (connectionIds (entries sm key)) \<Longrightarrow>
   distinct (connectionIds (entries (subscribe names c opr sm) key))"
  unfolding subscribe_def
  by (induction names arbitrary: sm) (simp_all add: subscribe_name_distinct)

lemma subscribe_name_present:
  "id_conn c \<in> set (connectionIds (entries sm key)) \<Longrightarrow>
   id_conn c \<in> set (connectionIds (entries (subscribe_name c' opr n sm) key))"
  by (auto simp: entries_subscribe_name connectionIds_def)

lemma subscribe_name_adds:
  "id_conn c \<in> set (connectionIds (entries (subscribe_name c opr n sm)
      (getSubscriptionNameFromConnection sm n c)))"
  by (auto simp: entries_subscribe_name connectionIds_def subscriber_of_def)

lemma subscribe_present:
  "id_conn c \<in> set (connectionIds (entries sm key)) \<Longrightarrow>
   id_conn c \<in> set (connectionIds (entries (subscribe names c' opr sm) key))"
  unfolding subscribe_def
  by (induction names arbitrary: sm) (simp_all add: subscribe_name_present)

lemma subscribe_adds:
  "n \<in> set names \<Longrightarrow>
   id_conn c \<in> set (connectionIds (entries (subscribe names c opr sm)
      (getSubscriptionNameFromConnection sm n c)))"
  unfolding subscribe_def
proof (induction names arbitrary: sm)
  case Nil
  then show ?case by simp
next
  case (Cons a names)
  show ?case
  proof (cases "n = a")
    case True
    have "id_conn c \<in> set (connectionIds (entries (subscribe names c opr (subscribe_name c opr a sm))
      (getSubscriptionNameFromConnection sm a c)))"
      by (rule subscribe_present) (rule subscribe_name_adds)
    then show ?thesis using True by (simp add: subscribe_def)
  next
    case False
    with Cons.prems have "n \<in> set names" by simp
    from Cons.IH [OF this, of "subscribe_name c opr a sm"] show ?thesis by simp
  qed
qed

lemma subscribe_name_noop:
  "id_conn c \<in> set (connectionIds (entries sm (getSubscriptionNameFromConnection sm n c))) \<Longrightarrow>
   subscribe_name c opr n sm = sm"
  by (auto simp: subscribe_name_def entries_def Let_def find_None_conn connectionIds_def
           split: option.splits)

lemma subscribe_noop:
  "\<forall>n \<in> set names. id_conn c \<in> set (connectionIds (entries sm (getSubscriptionNameFromConnection sm n c))) \<Longrightarrow>
   subscribe names c opr sm = sm"
  unfolding subscribe_def
  by (induction names) (simp_all add: subscribe_name_noop)

lemma distinct_count_le:
  "distinct (connectionIds subs) \<Longrightarrow> length (ofConnection cid subs) \<le> 1"
proof (induction subs)
  case Nil
  then show ?case by (simp add: ofConnection_def)
next
  case (Cons a subs)
  show ?case
  proof (cases "id_conn (connection a) = cid")
    case True
    from Cons.prems have "cid \<notin> (\<lambda>s. id_conn (connection s)) ` set subs"
      using True by (simp add: connectionIds_def)
    then have "\<forall>s \<in> set subs. id_conn (connection s) \<noteq> cid"
      by blast
    then have "ofConnection cid subs = []"
      by (simp add: ofConnection_def filter_empty_conv)
    then show ?thesis using True by (simp add: ofConnection_def)
  next
    case False
    with Cons show ?thesis by (simp add: ofConnection_def connectionIds_def)
  qed
qed

lemma present_count_ge:
  "cid \<in> set (connectionIds subs) \<Longrightarrow> 1 \<le> length (ofConnection cid subs)"
  by (induction subs) (auto simp: connectionIds_def ofConnection_def)

text \<open>
  Claim C5. Under every key the index holds at most one subscriber per connection id:
  \<^verbatim>\<open>subscribe\<close> keeps that true under every key; for each name it was called with,
  the key of that name then holds exactly one subscriber of the connection, after one
  call and after a second call with any operation; and on an empty list of names
  \<^verbatim>\<open>subscribe\<close> returns with the index as it was. The model of \<^verbatim>\<open>subscribe\<close>
  has no error result because the source has no throw on that path.
\<close>

theorem subscribe_one_per_connection:
  assumes "distinct (connectionIds (entries sm key))"
  shows "distinct (connectionIds (entries (subscribe names c opr sm) key)) \<and>
         (\<forall>n \<in> set names. key = getSubscriptionNameFromConnection sm n c \<longrightarrow>
            length (ofConnection (id_conn c) (entries (subscribe names c opr sm) key)) = 1 \<and>
            length (ofConnection (id_conn c)
              (entries (subscribe names c opr' (subscribe names c opr sm)) key)) = 1) \<and>
         subscribe [] c opr sm = sm"
proof -
  let ?sm1 = "subscribe names c opr sm"
  have d1: "distinct (connectionIds (entries ?sm1 key))"
    using assms by (rule subscribe_distinct)
  have d2: "distinct (connectionIds (entries (subscribe names c opr' ?sm1) key))"
    using d1 by (rule subscribe_distinct)
  have one: "length (ofConnection (id_conn c) (entries ?sm1 key)) = 1 \<and>
             length (ofConnection (id_conn c) (entries (subscribe names c opr' ?sm1) key)) = 1"
    if n: "n \<in> set names" and k: "key = getSubscriptionNameFromConnection sm n c" for n
  proof -
    have p1: "id_conn c \<in> set (connectionIds (entries ?sm1 key))"
      using subscribe_adds [OF n, of c opr sm] k by simp
    have p2: "id_conn c \<in> set (connectionIds (entries (subscribe names c opr' ?sm1) key))"
      using p1 by (rule subscribe_present)
    show ?thesis
      using distinct_count_le [OF d1, of "id_conn c"] present_count_ge [OF p1]
            distinct_count_le [OF d2, of "id_conn c"] present_count_ge [OF p2]
      by simp
  qed
  have "subscribe [] c opr sm = sm" by (simp add: subscribe_def)
  with d1 one show ?thesis by blast
qed

text \<open>
  Claim C10. When the connection already has a subscriber under the key of every name
  given, \<^verbatim>\<open>subscribe\<close> leaves the whole manager as it was, whatever the new operation
  and operation id are: the stored subscriber keeps its own, and the new ones are stored
  nowhere.
\<close>

theorem subscribe_existing_unchanged:
  assumes "\<forall>n \<in> set names.
             id_conn c \<in> set (connectionIds (entries sm (getSubscriptionNameFromConnection sm n c)))"
  shows "subscribe names c opr sm = sm"
  using assms by (rule subscribe_noop)

lemma entries_unsubscribeAllByConnectionId:
  "entries (unsubscribeAllByConnectionId cid sm) key = ofConnection cid (entries sm key)"
  by (simp add: unsubscribeAllByConnectionId_def entries_def ofConnection_def split: option.splits)

lemma entries_unsubscribeOperation:
  "entries (unsubscribeOperation cid oid sm) key =
     filter (\<lambda>s. id_conn (connection s) \<noteq> cid \<and> operationId s \<noteq> oid) (entries sm key)"
  by (simp add: unsubscribeOperation_def entries_def split: option.splits)

lemma entries_unsubscribe:
  "entries (unsubscribe sub sm) key =
     (if key = event sub then filter (\<lambda>s. id_conn (connection s) \<noteq> id_conn (connection sub)) (entries sm key)
      else entries sm key)"
  by (simp add: unsubscribe_def entries_def split: option.splits)

lemma subscribersByEvent_entries:
  "subscribersByEvent sm ev =
     [filter (\<lambda>s. event s = getSubscriptionNameFromEvent sm ev)
        (entries sm (getSubscriptionNameFromEvent sm ev))]"
  by (simp add: subscribersByEvent_def entries_def Let_def)

lemma unsubscribe_config [simp]:
  "getSubscriptionNameFromEvent (unsubscribeAllByConnectionId cid sm) = getSubscriptionNameFromEvent sm"
  "getSubscriptionNameFromEvent (unsubscribeOperation cid oid sm) = getSubscriptionNameFromEvent sm"
  "getSubscriptionNameFromEvent (unsubscribe sub sm) = getSubscriptionNameFromEvent sm"
  by (simp_all add: unsubscribeAllByConnectionId_def unsubscribeOperation_def unsubscribe_def
        split: option.splits)

lemma subscribersByEvent_unsubscribeAll:
  "subscribersByEvent (unsubscribeAllByConnectionId cid sm) ev =
     [ofConnection cid (filter (\<lambda>s. event s = getSubscriptionNameFromEvent sm ev)
        (entries sm (getSubscriptionNameFromEvent sm ev)))]"
  by (simp add: subscribersByEvent_entries entries_unsubscribeAllByConnectionId ofConnection_def
        conj_commute)

text \<open>
  Claim C1 asks that after \<^verbatim>\<open>unsubscribeAllByConnectionId(cid)\<close> no event yields a
  subscriber of that connection. The filter of the source keeps the entries whose
  connection id equals \<open>cid\<close>: with \<open>a\<close> and \<open>b\<close> on \<open>chat\<close>, the call for \<open>a\<close>
  leaves \<open>a\<close> subscribed and removes \<open>b\<close>.
\<close>

theorem unsubscribeAllByConnectionId_keeps_only_that_connection:
  "subscribersByEvent (unsubscribeAllByConnectionId ''a'' two_on_chat) chat =
     [[subscriber_of ''chat'' (conn ''a'' ''wss://one'') (oper ''ok'' ''1'')]]"
  by (simp add: subscribersByEvent_unsubscribeAll ofConnection_def entries_def two_on_chat_def
        manager_with_def new_SubscriptionManager_def chat_def subscriber_of_def conn_def)

text \<open>
  Claim C2 asks that \<^verbatim>\<open>unsubscribeOperation(cid, opId)\<close> remove the entries matching
  both and keep the others. The filter of the source keeps an entry only when both its
  connection id and its operation id differ: with \<open>a\<close> and \<open>b\<close> on \<open>chat\<close> under
  operation id 1 and on \<open>news\<close> under operation id 2, the call for \<open>a\<close> and 1 also
  removes \<open>b\<close> from \<open>chat\<close> (another connection) and \<open>a\<close> from \<open>news\<close> (another
  operation of the same connection).
\<close>

theorem unsubscribeOperation_removes_either_match:
  "entries two_events ''chat'' =
     [subscriber_of ''chat'' (conn ''a'' ''wss://one'') (oper ''ok'' ''1''),
      subscriber_of ''chat'' (conn ''b'' ''wss://two'') (oper ''ok'' ''1'')] \<and>
   entries two_events ''news'' =
     [subscriber_of ''news'' (conn ''a'' ''wss://one'') (oper ''ok'' ''2''),
      subscriber_of ''news'' (conn ''b'' ''wss://two'') (oper ''ok'' ''2'')] \<and>
   entries (unsubscribeOperation ''a'' ''1'' two_events) ''chat'' = [] \<and>
   entries (unsubscribeOperation ''a'' ''1'' two_events) ''news'' =
     [subscriber_of ''news'' (conn ''b'' ''wss://two'') (oper ''ok'' ''2'')]"
  unfolding entries_unsubscribeOperation
  by (simp add: entries_def two_events_def manager_with_def new_SubscriptionManager_def
        subscriber_of_def conn_def oper_def)

text \<open>
  Claim C7, amended. \<^verbatim>\<open>subscribersByEvent\<close> yields exactly one batch: the subscribers
  stored under the key computed by \<^verbatim>\<open>getSubscriptionNameFromEvent\<close> whose own event
  field equals that key (none when the key is absent). It is the whole stored list when
  every stored entry carries its key, which \<open>keyed_subscribe\<close> shows for the entries
  \<^verbatim>\<open>subscribe\<close> writes.
\<close>

theorem subscribersByEvent_one_batch:
  "subscribersByEvent sm ev =
     [filter (\<lambda>s. event s = getSubscriptionNameFromEvent sm ev)
        (entries sm (getSubscriptionNameFromEvent sm ev))] \<and>
   length (subscribersByEvent sm ev) = 1 \<and>
   (list_all (\<lambda>s. event s = getSubscriptionNameFromEvent sm ev)
       (entries sm (getSubscriptionNameFromEvent sm ev)) \<longrightarrow>
    subscribersByEvent sm ev = [entries sm (getSubscriptionNameFromEvent sm ev)])"
  by (simp add: subscribersByEvent_entries list_all_iff)

text \<open>Claim C7, amended, at the index with \<open>a\<close> and \<open>b\<close> on \<open>chat\<close>.\<close>

theorem subscribersByEvent_one_batch_witness:
  "list_all (\<lambda>s. event s = ''chat'') (entries two_on_chat ''chat'') \<and>
   subscribersByEvent two_on_chat chat =
     [[subscriber_of ''chat'' (conn ''a'' ''wss://one'') (oper ''ok'' ''1''),
       subscriber_of ''chat'' (conn ''b'' ''wss://two'') (oper ''ok'' ''1'')]]"
  using subscribersByEvent_one_batch [of two_on_chat chat]
  by (simp add: entries_def two_on_chat_def manager_with_def new_SubscriptionManager_def
        chat_def subscriber_of_def)

text \<open>
  Claim C7 as first stated (the batch is the stored list) fails on a storage whose entry
  under \<open>chat\<close> names the event \<open>news\<close>: the batch is empty, the stored list is not.
\<close>

theorem subscribersByEvent_stored_list_counterexample:
  "subscribersByEvent mislabelled chat = [[]] \<and>
   subscriptions mislabelled (getSubscriptionNameFromEvent mislabelled chat) =
     Some [subscriber_of ''news'' (conn ''a'' ''wss://one'') (oper ''ok'' ''1'')]"
  by (simp add: subscribersByEvent_def mislabelled_def manager_with_def
        new_SubscriptionManager_def chat_def subscriber_of_def)

lemma keyed_subscribe_name:
  "list_all (\<lambda>s. event s = key) (entries sm key) \<Longrightarrow>
   list_all (\<lambda>s. event s = key) (entries (subscribe_name c opr n sm) key)"
  by (auto simp: entries_subscribe_name subscriber_of_def)

lemma keyed_subscribe:
  "list_all (\<lambda>s. event s = key) (entries sm key) \<Longrightarrow>
   list_all (\<lambda>s. event s = key) (entries (subscribe names c opr sm) key)"
  unfolding subscribe_def
  by (induction names arbitrary: sm) (simp_all add: keyed_subscribe_name)

lemma keyed_unsubscribe:
  "list_all (\<lambda>s. event s = key) (entries sm key) \<Longrightarrow>
   list_all (\<lambda>s. event s = key) (entries (unsubscribe sub sm) key) \<and>
   list_all (\<lambda>s. event s = key) (entries (unsubscribeOperation cid oid sm) key) \<and>
   list_all (\<lambda>s. event s = key) (entries (unsubscribeAllByConnectionId cid sm) key)"
  by (auto simp: entries_unsubscribe entries_unsubscribeOperation
        entries_unsubscribeAllByConnectionId ofConnection_def list_all_iff)

lemma entries_new [simp]:
  "entries (new_SubscriptionManager f g None) key = []"
  by (simp add: entries_def new_SubscriptionManager_def)

lemma distinct_unsubscribe:
  "distinct (connectionIds (entries sm key)) \<Longrightarrow>
   distinct (connectionIds (entries (unsubscribe sub sm) key)) \<and>
   distinct (connectionIds (entries (unsubscribeOperation cid oid sm) key)) \<and>
   distinct (connectionIds (entries (unsubscribeAllByConnectionId cid sm) key))"
  by (auto simp: entries_unsubscribe entries_unsubscribeOperation
        entries_unsubscribeAllByConnectionId ofConnection_def connectionIds_def
        intro: distinct_map_filter)

text \<open>Claim C5 at the empty index, subscribing connection \<open>a\<close> to \<open>chat\<close> twice.\<close>

theorem subscribe_one_per_connection_witness:
  "distinct (connectionIds (entries (new_SubscriptionManager None None None) ''chat'')) \<and>
   entries (subscribe [''chat''] (conn ''a'' ''wss://one'') (oper ''ok'' ''2'')
     (subscribe [''chat''] (conn ''a'' ''wss://one'') (oper ''ok'' ''1'')
       (new_SubscriptionManager None None None))) ''chat'' =
     [subscriber_of ''chat'' (conn ''a'' ''wss://one'') (oper ''ok'' ''1'')] \<and>
   length (ofConnection ''a''
     (entries (subscribe [''chat''] (conn ''a'' ''wss://one'') (oper ''ok'' ''2'')
       (subscribe [''chat''] (conn ''a'' ''wss://one'') (oper ''ok'' ''1'')
         (new_SubscriptionManager None None None))) ''chat'')) = 1"
proof -
  let ?sm = "new_SubscriptionManager None None None"
  let ?c = "conn ''a'' ''wss://one''"
  have h: "distinct (connectionIds (entries ?sm ''chat''))"
    by (simp add: connectionIds_def)
  have k: "getSubscriptionNameFromConnection ?sm ''chat'' ?c = ''chat''"
    by (simp add: new_SubscriptionManager_def)
  have e: "entries (subscribe [''chat''] ?c (oper ''ok'' ''2'')
             (subscribe [''chat''] ?c (oper ''ok'' ''1'') ?sm)) ''chat'' =
           [subscriber_of ''chat'' ?c (oper ''ok'' ''1'')]"
    by (simp add: subscribe_def entries_subscribe_name k connectionIds_def subscriber_of_def)
  have i: "id_conn ?c = ''a''" by (simp add: conn_def)
  from subscribe_one_per_connection [OF h, of "[''chat'']" ?c "oper ''ok'' ''1''" "oper ''ok'' ''2''"] k i
  have "length (ofConnection ''a''
     (entries (subscribe [''chat''] ?c (oper ''ok'' ''2'')
       (subscribe [''chat''] ?c (oper ''ok'' ''1'') ?sm)) ''chat'')) = 1"
    by simp
  with h e show ?thesis by simp
qed

text \<open>Claim C10 for connection \<open>a\<close>, already on \<open>chat\<close> with operation id 1, subscribing with id 9.\<close>

theorem subscribe_existing_unchanged_witness:
  "getSubscriptionNameFromConnection two_on_chat ''chat'' (conn ''a'' ''wss://one'') = ''chat'' \<and>
   id_conn (conn ''a'' ''wss://one'') \<in> set (connectionIds (entries two_on_chat ''chat'')) \<and>
   subscribe [''chat''] (conn ''a'' ''wss://one'') (oper ''other'' ''9'') two_on_chat = two_on_chat"
proof -
  have k: "getSubscriptionNameFromConnection two_on_chat ''chat'' (conn ''a'' ''wss://one'') = ''chat''"
    by (simp add: two_on_chat_def manager_with_def new_SubscriptionManager_def)
  have m: "id_conn (conn ''a'' ''wss://one'') \<in> set (connectionIds (entries two_on_chat ''chat''))"
    by (simp add: two_on_chat_def manager_with_def new_SubscriptionManager_def entries_def
          connectionIds_def subscriber_of_def conn_def)
  have h: "\<forall>n \<in> set [''chat''].
      id_conn (conn ''a'' ''wss://one'') \<in> set (connectionIds (entries two_on_chat
        (getSubscriptionNameFromConnection two_on_chat n (conn ''a'' ''wss://one''))))"
    using k m by simp
  from subscribe_existing_unchanged [OF h] k m show ?thesis by simp
qed


section \<open>Properties of the ApiGatewayConnectionManager\<close>

lemma createApiGatewayManager_connections [simp]:
  "connections (snd (createApiGatewayManager ep cm)) = connections cm"
  by (simp add: createApiGatewayManager_def Let_def split: option.splits)

text \<open>
  Claim C4. When the post to the connection fails with \<open>e\<close>: if the status code of
  \<open>e\<close> is 410, \<^verbatim>\<open>sendToConnection\<close> resolves and the registry is the old one without
  the connection's id; otherwise it rejects with \<open>e\<close> itself, the registry untouched.
\<close>

theorem sendToConnection_stale_or_raise:
  assumes "post (fst (createApiGatewayManager (endpoint (data_conn c)) cm)) (id_conn c) pl = Some e"
  shows "(statusCode e = Some 410 \<longrightarrow>
            fst (sendToConnection post c pl cm) = Inr () \<and>
            connections (snd (sendToConnection post c pl cm)) = (connections cm)(id_conn c := None) \<and>
            connections (snd (sendToConnection post c pl cm)) (id_conn c) = None) \<and>
         (statusCode e \<noteq> Some 410 \<longrightarrow>
            fst (sendToConnection post c pl cm) = Inl e \<and>
            connections (snd (sendToConnection post c pl cm)) = connections cm)"
  using assms
  by (simp add: sendToConnection_def unregisterConnection_def split_beta)

text \<open>Claim C4 at the sample network: a post to \<open>gone\<close> (410) and a post to \<open>down\<close> (500).\<close>

theorem sendToConnection_stale_or_raise_witness:
  "postToConnection sample_server
     (fst (createApiGatewayManager (endpoint (data_conn (conn ''gone'' ''wss://one''))) registry))
     (id_conn (conn ''gone'' ''wss://one'')) ''m'' = Some (Thrown (Some 410) ''Gone'') \<and>
   fst (sendToConnection (postToConnection sample_server) (conn ''gone'' ''wss://one'') ''m'' registry) = Inr () \<and>
   connections (snd (sendToConnection (postToConnection sample_server) (conn ''gone'' ''wss://one'') ''m'' registry))
     ''gone'' = None \<and>
   postToConnection sample_server
     (fst (createApiGatewayManager (endpoint (data_conn (conn ''down'' ''wss://two''))) registry))
     (id_conn (conn ''down'' ''wss://two'')) ''m'' = Some (Thrown (Some 500) ''Internal'') \<and>
   fst (sendToConnection (postToConnection sample_server) (conn ''down'' ''wss://two'') ''m'' registry) =
     Inl (Thrown (Some 500) ''Internal'')"
proof -
  have g: "postToConnection sample_server
     (fst (createApiGatewayManager (endpoint (data_conn (conn ''gone'' ''wss://one''))) registry))
     (id_conn (conn ''gone'' ''wss://one'')) ''m'' = Some (Thrown (Some 410) ''Gone'')"
    by (simp add: sample_server_def conn_def)
  have d: "postToConnection sample_server
     (fst (createApiGatewayManager (endpoint (data_conn (conn ''down'' ''wss://two''))) registry))
     (id_conn (conn ''down'' ''wss://two'')) ''m'' = Some (Thrown (Some 500) ''Internal'')"
    by (simp add: sample_server_def conn_def)
  have i: "id_conn (conn ''gone'' ''wss://one'') = ''gone''" by (simp add: conn_def)
  from sendToConnection_stale_or_raise
         [of "postToConnection sample_server" "conn ''gone'' ''wss://one''" registry "''m''"
             "Thrown (Some 410) ''Gone''", OF g]
       sendToConnection_stale_or_raise
         [of "postToConnection sample_server" "conn ''down'' ''wss://two''" registry "''m''"
             "Thrown (Some 500) ''Internal''", OF d]
       g d i
  show ?thesis by simp
qed

text \<open>
  Claim C6. \<^verbatim>\<open>hydrateConnection\<close> rejects exactly when no record is stored under the
  id, and then with \<open>ConnectionNotFoundError\<close>; when a record is stored it resolves with
  that record; in both cases the manager is as before.
\<close>

theorem hydrateConnection_found_iff:
  "(isl (fst (hydrateConnection connectionId cm)) \<longleftrightarrow> connections cm connectionId = None) \<and>
   (connections cm connectionId = None \<longrightarrow>
      fst (hydrateConnection connectionId cm) =
        Inl (ConnectionNotFoundError (''Connection '' @ connectionId @ '' not found''))) \<and>
   (\<forall>c. connections cm connectionId = Some c \<longrightarrow> fst (hydrateConnection connectionId cm) = Inr c) \<and>
   snd (hydrateConnection connectionId cm) = cm"
  by (simp add: hydrateConnection_def split: option.splits)

text \<open>Claim C6 at the sample registry, for an unknown id and for \<open>down\<close>.\<close>

theorem hydrateConnection_found_iff_witness:
  "connections registry ''zz'' = None \<and>
   fst (hydrateConnection ''zz'' registry) = Inl (ConnectionNotFoundError ''Connection zz not found'') \<and>
   connections registry ''down'' = Some (conn ''down'' ''wss://two'') \<and>
   fst (hydrateConnection ''down'' registry) = Inr (conn ''down'' ''wss://two'') \<and>
   snd (hydrateConnection ''down'' registry) = registry"
proof -
  have n: "connections registry ''zz'' = None"
    by (simp add: registry_def new_ApiGatewayConnectionManager_def)
  have s: "connections registry ''down'' = Some (conn ''down'' ''wss://two'')"
    by (simp add: registry_def new_ApiGatewayConnectionManager_def)
  from hydrateConnection_found_iff [of "''zz''" registry]
       hydrateConnection_found_iff [of "''down''" registry] n s
  show ?thesis by simp
qed

lemma sendToConnection_keeps_client:
  "apiGatewayManager cm = Some m \<Longrightarrow>
   apiGatewayManager (snd (sendToConnection post c pl cm)) = Some m \<and>
   fst (sendToConnection post c pl cm) = posted post m (c, pl)"
  by (simp add: sendToConnection_def createApiGatewayManager_def unregisterConnection_def
        posted_def split: option.splits)

lemma sendAll_through_client:
  "apiGatewayManager cm = Some m \<Longrightarrow>
   apiGatewayManager (snd (sendAll post calls cm)) = Some m \<and>
   fst (sendAll post calls cm) = map (posted post m) calls"
proof (induction calls arbitrary: cm)
  case Nil
  then show ?case by simp
next
  case (Cons call calls)
  obtain c pl where call: "call = (c, pl)" by (cases call)
  from sendToConnection_keeps_client [OF Cons.prems, of post c pl]
  have k: "apiGatewayManager (snd (sendToConnection post c pl cm)) = Some m"
    and r: "fst (sendToConnection post c pl cm) = posted post m (c, pl)"
    by simp_all
  from Cons.IH [OF k] call r show ?case
    by (simp add: split_beta)
qed

lemma first_send_builds_client:
  "apiGatewayManager cm = None \<Longrightarrow>
   apiGatewayManager (snd (sendToConnection post c pl cm)) =
     Some \<lparr> endpoint_api = endpoint (data_conn c), apiVersion = ''2018-11-29'' \<rparr> \<and>
   fst (sendToConnection post c pl cm) =
     posted post \<lparr> endpoint_api = endpoint (data_conn c), apiVersion = ''2018-11-29'' \<rparr> (c, pl)"
  by (auto simp: sendToConnection_def createApiGatewayManager_def unregisterConnection_def
        posted_def Let_def split: option.splits)

text \<open>
  Claim C9. Once a client exists, \<^verbatim>\<open>createApiGatewayManager\<close> returns it whatever the
  endpoint asked for, a send posts through it and leaves it in place, and so does every
  send of any sequence of sends. Starting without a client, the first send leaves the
  client built from the first connection's endpoint (whether that post succeeds or not),
  and every later send, to whatever connection, is the post through that client, not
  through one for the endpoint of its own connection.
\<close>

theorem createApiGatewayManager_reuses_first_client:
  "(\<forall>m. apiGatewayManager cm = Some m \<longrightarrow>
      createApiGatewayManager ep cm = (m, cm) \<and>
      fst (sendToConnection post c2 pl2 cm) =
        (case post m (id_conn c2) pl2 of
           None \<Rightarrow> Inr ()
         | Some e \<Rightarrow> if statusCode e = Some 410 then Inr () else Inl e) \<and>
      apiGatewayManager (snd (sendToConnection post c2 pl2 cm)) = Some m \<and>
      apiGatewayManager (snd (sendAll post calls cm)) = Some m \<and>
      fst (sendAll post calls cm) = map (posted post m) calls) \<and>
   (apiGatewayManager cm = None \<longrightarrow>
      apiGatewayManager (snd (sendToConnection post c1 pl1 cm)) =
        Some \<lparr> endpoint_api = endpoint (data_conn c1), apiVersion = ''2018-11-29'' \<rparr> \<and>
      createApiGatewayManager ep (snd (sendToConnection post c1 pl1 cm)) =
        (\<lparr> endpoint_api = endpoint (data_conn c1), apiVersion = ''2018-11-29'' \<rparr>,
         snd (sendToConnection post c1 pl1 cm)) \<and>
      fst (sendToConnection post c2 pl2 (snd (sendToConnection post c1 pl1 cm))) =
        (case post \<lparr> endpoint_api = endpoint (data_conn c1), apiVersion = ''2018-11-29'' \<rparr>
                (id_conn c2) pl2 of
           None \<Rightarrow> Inr ()
         | Some e \<Rightarrow> if statusCode e = Some 410 then Inr () else Inl e) \<and>
      apiGatewayManager (snd (sendAll post ((c1, pl1) # calls) cm)) =
        Some \<lparr> endpoint_api = endpoint (data_conn c1), apiVersion = ''2018-11-29'' \<rparr> \<and>
      fst (sendAll post ((c1, pl1) # calls) cm) =
        map (posted post \<lparr> endpoint_api = endpoint (data_conn c1), apiVersion = ''2018-11-29'' \<rparr>)
          ((c1, pl1) # calls))"
proof -
  let ?m1 = "\<lparr> endpoint_api = endpoint (data_conn c1), apiVersion = ''2018-11-29'' \<rparr>"
  have old: "(\<forall>m. apiGatewayManager cm = Some m \<longrightarrow>
      createApiGatewayManager ep cm = (m, cm) \<and>
      fst (sendToConnection post c2 pl2 cm) =
        (case post m (id_conn c2) pl2 of
           None \<Rightarrow> Inr ()
         | Some e \<Rightarrow> if statusCode e = Some 410 then Inr () else Inl e)) \<and>
   (apiGatewayManager cm = None \<longrightarrow>
      apiGatewayManager (snd (sendToConnection post c1 pl1 cm)) = Some ?m1 \<and>
      createApiGatewayManager ep (snd (sendToConnection post c1 pl1 cm)) =
        (?m1, snd (sendToConnection post c1 pl1 cm)) \<and>
      fst (sendToConnection post c2 pl2 (snd (sendToConnection post c1 pl1 cm))) =
        (case post ?m1 (id_conn c2) pl2 of
           None \<Rightarrow> Inr ()
         | Some e \<Rightarrow> if statusCode e = Some 410 then Inr () else Inl e))"
    by (auto simp: createApiGatewayManager_def sendToConnection_def unregisterConnection_def Let_def
          split: option.splits)
  have keep: "apiGatewayManager (snd (sendToConnection post c2 pl2 cm)) = Some m \<and>
      apiGatewayManager (snd (sendAll post calls cm)) = Some m \<and>
      fst (sendAll post calls cm) = map (posted post m) calls"
    if "apiGatewayManager cm = Some m" for m
    using sendToConnection_keeps_client [OF that, of post c2 pl2]
          sendAll_through_client [OF that, of post calls]
    by simp
  have first: "apiGatewayManager (snd (sendAll post ((c1, pl1) # calls) cm)) = Some ?m1 \<and>
      fst (sendAll post ((c1, pl1) # calls) cm) = map (posted post ?m1) ((c1, pl1) # calls)"
    if n: "apiGatewayManager cm = None"
  proof -
    from first_send_builds_client [OF n, of post c1 pl1]
    have k: "apiGatewayManager (snd (sendToConnection post c1 pl1 cm)) = Some ?m1"
      and r: "fst (sendToConnection post c1 pl1 cm) = posted post ?m1 (c1, pl1)"
      by simp_all
    from sendAll_through_client [OF k, of post calls] r show ?thesis
      by (simp add: split_beta)
  qed
  from old keep first show ?thesis by blast
qed

text \<open>
  Claim C9: after a send to \<open>a\<close> at \<open>wss://one\<close>, asking for \<open>wss://two\<close> gives the
  first client, and it is still the client after sends to \<open>b\<close> and \<open>c\<close> at two other
  endpoints.
\<close>

theorem createApiGatewayManager_reuses_first_client_witness:
  "apiGatewayManager registry = None \<and>
   apiGatewayManager (snd (sendToConnection (postToConnection sample_server)
       (conn ''a'' ''wss://one'') ''m'' registry)) =
     Some \<lparr> endpoint_api = ''wss://one'', apiVersion = ''2018-11-29'' \<rparr> \<and>
   fst (createApiGatewayManager ''wss://two''
       (snd (sendToConnection (postToConnection sample_server)
          (conn ''a'' ''wss://one'') ''m'' registry))) =
     \<lparr> endpoint_api = ''wss://one'', apiVersion = ''2018-11-29'' \<rparr> \<and>
   apiGatewayManager (snd (sendAll (postToConnection sample_server)
       [(conn ''a'' ''wss://one'', ''m''), (conn ''b'' ''wss://two'', ''m''),
        (conn ''c'' ''wss://three'', ''m'')] registry)) =
     Some \<lparr> endpoint_api = ''wss://one'', apiVersion = ''2018-11-29'' \<rparr>"
proof -
  have n: "apiGatewayManager registry = None"
    by (simp add: registry_def new_ApiGatewayConnectionManager_def)
  have e: "endpoint (data_conn (conn ''a'' ''wss://one'')) = ''wss://one''"
    by (simp add: conn_def)
  from createApiGatewayManager_reuses_first_client
         [where cm=registry and ep="''wss://two''" and post="postToConnection sample_server"
            and ?c2.0="conn ''b'' ''wss://two''" and ?pl2.0="''m''"
            and ?c1.0="conn ''a'' ''wss://one''" and ?pl1.0="''m''"
            and calls="[(conn ''b'' ''wss://two'', ''m''), (conn ''c'' ''wss://three'', ''m'')]"] n e
  show ?thesis by simp
qed


section \<open>Properties of the EventProcessor\<close>

lemma resolution_cases:
  "(resolution srv ev s = Inr (Some v)) \<longleftrightarrow>
     (\<exists>opts. createGraphQLServerOptions srv ev (connection s) (operation s) = Inr opts \<and>
        execute srv opts ev (connection s) (operation s) = Inr (AsyncIterable (Inr (Some v))))"
  by (auto simp: resolution_def split: sum.splits ExecuteOutput.splits)

lemma branch_sendCalls:
  "sendCalls (snd (branch srv ev s st)) =
     sendCalls st @
       (case resolution srv ev s of
          Inr (Some v) \<Rightarrow>
            [\<lparr> to = connection s, message = envelope srv s v, settled = fst (branch srv ev s st) \<rparr>]
        | _ \<Rightarrow> [])"
  by (simp add: branch_def envelope_def Let_def split_beta split: sum.splits option.splits)

lemma sendToConnection_in_two:
  "sendToConnection post c pl cm =
     sendToConnection_after_post
       (post (fst (createApiGatewayManager (endpoint (data_conn c)) cm)) (id_conn c) pl) c
       (snd (createApiGatewayManager (endpoint (data_conn c)) cm))"
  by (simp add: sendToConnection_def sendToConnection_after_post_def split_beta
        split: option.splits)

text \<open>
  The steps of a task, taken with no other task in between, are the branch as
  \<open>branch\<close> runs it.
\<close>

lemma branch_is_its_steps:
  "run ep srv ev (if delivers srv ev s then [0, 0] else [0]) [s] st =
     \<lparr> tasks = [(s, case fst (branch srv ev s st) of
                      Inl e \<Rightarrow> Rejected e
                    | Inr u \<Rightarrow> Done (Inr u) (Inr u))],
       dispatch = snd (branch srv ev s st), rejection = None \<rparr>"
proof (cases "resolution srv ev s")
  case (Inl e)
  then show ?thesis
    by (simp add: run_def fanout_def step_def advance_def branch_def delivers_def)
next
  case (Inr res)
  show ?thesis
  proof (cases res)
    case None
    with Inr show ?thesis
      by (simp add: run_def fanout_def step_def advance_def branch_def delivers_def)
  next
    case (Some v)
    with Inr show ?thesis
      by (simp add: run_def fanout_def step_def advance_def branch_def delivers_def
            sendToConnection_in_two Let_def split_beta split: sum.splits)
  qed
qed

text \<open>
  Claim C8. When the execution of a branch gives a non-null value \<open>v\<close>, that is when the
  options are built and \<^verbatim>\<open>execute\<close> returns an async iterable whose first value is
  \<open>v\<close>, the branch is the call of \<^verbatim>\<open>sendToConnection\<close> on the subscriber's connection
  with the message \<^verbatim>\<open>formatMessage({ id: operationId, payload: v, type: GQL_DATA })\<close>:
  it settles as that call does and leaves the connection manager that call leaves. In
  every other case (an exception, an output that is not an async iterable, a null value)
  the branch changes nothing, so no send occurs. The steps the handler gives the task of
  the subscriber are this branch.
\<close>

theorem branch_sends_iff_result:
  "(\<forall>v. resolution srv ev s = Inr (Some v) \<longrightarrow>
      branch srv ev s st =
        (fst (sendToConnection (postToConnection srv) (connection s)
                (formatMessage srv \<lparr> id_msg = operationId s, payload_msg = v, type_msg = GQL_DATA srv \<rparr>)
                (connectionManager st)),
         st\<lparr> connectionManager :=
               snd (sendToConnection (postToConnection srv) (connection s)
                      (formatMessage srv \<lparr> id_msg = operationId s, payload_msg = v, type_msg = GQL_DATA srv \<rparr>)
                      (connectionManager st)),
             sendCalls := sendCalls st @
               [\<lparr> to = connection s,
                  message = formatMessage srv
                    \<lparr> id_msg = operationId s, payload_msg = v, type_msg = GQL_DATA srv \<rparr>,
                  settled =
                    fst (sendToConnection (postToConnection srv) (connection s)
                           (formatMessage srv \<lparr> id_msg = operationId s, payload_msg = v, type_msg = GQL_DATA srv \<rparr>)
                           (connectionManager st)) \<rparr>] \<rparr>)) \<and>
   ((\<forall>v. resolution srv ev s \<noteq> Inr (Some v)) \<longrightarrow>
      branch srv ev s st =
        ((case resolution srv ev s of Inl e \<Rightarrow> Inl e | Inr r \<Rightarrow> Inr ()), st)) \<and>
   (\<forall>v. resolution srv ev s = Inr (Some v) \<longleftrightarrow>
      (\<exists>opts. createGraphQLServerOptions srv ev (connection s) (operation s) = Inr opts \<and>
         execute srv opts ev (connection s) (operation s) = Inr (AsyncIterable (Inr (Some v))))) \<and>
   (\<forall>opts. createGraphQLServerOptions srv ev (connection s) (operation s) = Inr opts \<and>
      (execute srv opts ev (connection s) (operation s) = Inr NotAsyncIterable \<or>
       execute srv opts ev (connection s) (operation s) = Inr (AsyncIterable (Inr None))) \<longrightarrow>
      branch srv ev s st = (Inr (), st)) \<and>
   sendCalls (snd (branch srv ev s st)) =
     sendCalls st @
       (case resolution srv ev s of
          Inr (Some v) \<Rightarrow>
            [\<lparr> to = connection s,
               message = formatMessage srv
                 \<lparr> id_msg = operationId s, payload_msg = v, type_msg = GQL_DATA srv \<rparr>,
               settled = fst (branch srv ev s st) \<rparr>]
        | _ \<Rightarrow> []) \<and>
   run ep srv ev (if delivers srv ev s then [0, 0] else [0]) [s] st =
     \<lparr> tasks = [(s, case fst (branch srv ev s st) of
                      Inl e \<Rightarrow> Rejected e
                    | Inr u \<Rightarrow> Done (Inr u) (Inr u))],
       dispatch = snd (branch srv ev s st), rejection = None \<rparr>"
proof -
  have a: "branch srv ev s st =
        (fst (sendToConnection (postToConnection srv) (connection s)
                (formatMessage srv \<lparr> id_msg = operationId s, payload_msg = v, type_msg = GQL_DATA srv \<rparr>)
                (connectionManager st)),
         st\<lparr> connectionManager :=
               snd (sendToConnection (postToConnection srv) (connection s)
                      (formatMessage srv \<lparr> id_msg = operationId s, payload_msg = v, type_msg = GQL_DATA srv \<rparr>)
                      (connectionManager st)),
             sendCalls := sendCalls st @
               [\<lparr> to = connection s,
                  message = formatMessage srv
                    \<lparr> id_msg = operationId s, payload_msg = v, type_msg = GQL_DATA srv \<rparr>,
                  settled =
                    fst (sendToConnection (postToConnection srv) (connection s)
                           (formatMessage srv \<lparr> id_msg = operationId s, payload_msg = v, type_msg = GQL_DATA srv \<rparr>)
                           (connectionManager st)) \<rparr>] \<rparr>)"
    if "resolution srv ev s = Inr (Some v)" for v
    using that by (simp add: branch_def Let_def split_beta)
  have b: "branch srv ev s st =
        ((case resolution srv ev s of Inl e \<Rightarrow> Inl e | Inr r \<Rightarrow> Inr ()), st)"
    if "\<forall>v. resolution srv ev s \<noteq> Inr (Some v)"
    using that by (simp add: branch_def split: sum.splits option.splits)
  have c: "branch srv ev s st = (Inr (), st)"
    if "createGraphQLServerOptions srv ev (connection s) (operation s) = Inr opts \<and>
      (execute srv opts ev (connection s) (operation s) = Inr NotAsyncIterable \<or>
       execute srv opts ev (connection s) (operation s) = Inr (AsyncIterable (Inr None)))" for opts
  proof -
    from that have "resolution srv ev s = Inr None"
      by (auto simp: resolution_def)
    then show ?thesis by (simp add: branch_def)
  qed
  have d: "sendCalls (snd (branch srv ev s st)) =
     sendCalls st @
       (case resolution srv ev s of
          Inr (Some v) \<Rightarrow>
            [\<lparr> to = connection s,
               message = formatMessage srv
                 \<lparr> id_msg = operationId s, payload_msg = v, type_msg = GQL_DATA srv \<rparr>,
               settled = fst (branch srv ev s st) \<rparr>]
        | _ \<Rightarrow> [])"
    unfolding branch_sendCalls envelope_def by (rule refl)
  from a b c d resolution_cases branch_is_its_steps show ?thesis by blast
qed

lemma kinds:
  "throws srv ev s \<Longrightarrow> \<not> skips srv ev s \<and> \<not> delivers srv ev s"
  "skips srv ev s \<Longrightarrow> \<not> throws srv ev s \<and> \<not> delivers srv ev s"
  "delivers srv ev s \<Longrightarrow> \<not> throws srv ev s \<and> \<not> skips srv ev s"
  by (auto simp: throws_def skips_def delivers_def split: sum.splits option.splits)

lemma advance_effect:
  assumes a: "advance ep srv ev s stg st rej = (stg1, st1, rej1)"
    and c: "consistent srv ev (s, stg)"
  shows "consistent srv ev (s, stg1) \<and>
         (\<exists>new. sendCalls st1 = sendCalls st @ new \<and>
            sent srv ev (s, stg1) = sent srv ev (s, stg) + mset new) \<and>
         (\<exists>errs. onErrorCalls st1 = onErrorCalls st @ errs \<and>
            reported (s, stg1) = reported (s, stg) + mset errs) \<and>
         rank stg \<le> rank stg1 \<and> (rank stg < 3 \<longrightarrow> rank stg < rank stg1) \<and>
         ((\<forall>e. onError ep e = None) \<and> rej = None \<longrightarrow> rej1 = None)"
proof (cases stg)
  case Running
  show ?thesis
  proof (cases "resolution srv ev s")
    case (Inl e)
    with a Running show ?thesis
      by (auto simp: advance_def throws_def skips_def delivers_def)
  next
    case (Inr res)
    show ?thesis
    proof (cases res)
      case None
      with a Running Inr show ?thesis
        by (auto simp: advance_def throws_def skips_def delivers_def)
    next
      case (Some v)
      with a Running Inr show ?thesis
        by (auto simp: advance_def throws_def skips_def delivers_def Let_def split_beta
              envelope_def result_value_def)
    qed
  qed
next
  case (Posting msg m)
  obtain r cm where sp: "sendToConnection_after_post
      (postToConnection srv m (id_conn (connection s)) msg) (connection s) (connectionManager st) = (r, cm)"
    by (cases "sendToConnection_after_post
      (postToConnection srv m (id_conn (connection s)) msg) (connection s) (connectionManager st)")
  from c Posting have d: "delivers srv ev s" and msg: "msg = envelope srv s (result_value srv ev s)"
    by simp_all
  from d obtain v where nk: "resolution srv ev s = Inr (Some v)"
    by (auto simp: delivers_def split: sum.splits option.splits)
  show ?thesis
  proof (cases r)
    case (Inl e)
    with a Posting sp have "stg1 = Rejected e"
      and "st1 = st\<lparr> connectionManager := cm,
             sendCalls := sendCalls st @ [\<lparr> to = connection s, message = msg, settled = Inl e \<rparr>] \<rparr>"
      and "rej1 = rej"
      by (auto simp: advance_def Let_def)
    with Posting d msg nk show ?thesis
      by (simp add: call_of_def)
  next
    case (Inr u)
    with a Posting sp have "stg1 = Done (Inr u) (Inr u)"
      and "st1 = st\<lparr> connectionManager := cm,
             sendCalls := sendCalls st @ [\<lparr> to = connection s, message = msg, settled = Inr u \<rparr>] \<rparr>"
      and "rej1 = rej"
      by (auto simp: advance_def Let_def)
    with Posting d msg nk show ?thesis
      by (simp add: call_of_def)
  qed
next
  case (Rejected e)
  with a c show ?thesis
    by (cases "onError ep e") (auto simp: advance_def split: sum.splits option.splits)
next
  case (Done b c')
  with a c show ?thesis
    by (auto simp: advance_def)
qed

lemma sum_list_map_update:
  fixes F :: "'a \<Rightarrow> 'b multiset"
  assumes "i < length xs"
  shows "sum_list (map F (xs[i := y])) + F (xs ! i) = sum_list (map F xs) + F y"
proof -
  have a: "xs = take i xs @ xs ! i # drop (Suc i) xs"
    using assms by (rule id_take_nth_drop)
  have b: "xs[i := y] = take i xs @ y # drop (Suc i) xs"
    using assms by (rule upd_conv_take_nth_drop)
  have "sum_list (map F xs) = sum_list (map F (take i xs)) + F (xs ! i) + sum_list (map F (drop (Suc i) xs))"
    by (subst a) simp
  moreover have "sum_list (map F (xs[i := y])) =
      sum_list (map F (take i xs)) + F y + sum_list (map F (drop (Suc i) xs))"
    by (subst b) simp
  ultimately show ?thesis by (simp add: ac_simps)
qed

lemma sum_list_map_grow:
  fixes F :: "'a \<Rightarrow> 'b multiset"
  assumes "i < length xs" and "F y = F (xs ! i) + d"
  shows "sum_list (map F (xs[i := y])) = sum_list (map F xs) + d"
proof -
  from sum_list_map_update [OF assms(1), of F y] assms(2)
  have "sum_list (map F (xs[i := y])) + F (xs ! i) = (sum_list (map F xs) + d) + F (xs ! i)"
    by (simp add: ac_simps)
  then show ?thesis by simp
qed

lemma step_outside [simp]: "\<not> i < length (tasks f) \<Longrightarrow> step ep srv ev i f = f"
  by (simp add: step_def)

lemma step_effect:
  assumes c: "list_all (consistent srv ev) (tasks f)"
  shows "map fst (tasks (step ep srv ev i f)) = map fst (tasks f) \<and>
         list_all (consistent srv ev) (tasks (step ep srv ev i f)) \<and>
         (\<exists>new. sendCalls (dispatch (step ep srv ev i f)) = sendCalls (dispatch f) @ new \<and>
            sum_list (map (sent srv ev) (tasks (step ep srv ev i f))) =
            sum_list (map (sent srv ev) (tasks f)) + mset new) \<and>
         (\<exists>errs. onErrorCalls (dispatch (step ep srv ev i f)) = onErrorCalls (dispatch f) @ errs \<and>
            sum_list (map reported (tasks (step ep srv ev i f))) =
            sum_list (map reported (tasks f)) + mset errs) \<and>
         ((\<forall>e. onError ep e = None) \<and> rejection f = None \<longrightarrow>
            rejection (step ep srv ev i f) = None)"
proof (cases "i < length (tasks f)")
  case False
  then show ?thesis using c by simp
next
  case True
  obtain s stg where t: "tasks f ! i = (s, stg)" by (cases "tasks f ! i")
  obtain stg1 st1 rej1 where a: "advance ep srv ev s stg (dispatch f) (rejection f) = (stg1, st1, rej1)"
    by (cases "advance ep srv ev s stg (dispatch f) (rejection f)")
  have st: "step ep srv ev i f =
      \<lparr> tasks = (tasks f)[i := (s, stg1)], dispatch = st1, rejection = rej1 \<rparr>"
    using True t a by (simp add: step_def)
  from c True t have ct: "consistent srv ev (s, stg)"
    by (metis list_all_length)
  from advance_effect [OF a ct] obtain new errs where
    e: "consistent srv ev (s, stg1)"
       "sendCalls st1 = sendCalls (dispatch f) @ new"
       "sent srv ev (s, stg1) = sent srv ev (s, stg) + mset new"
       "onErrorCalls st1 = onErrorCalls (dispatch f) @ errs"
       "reported (s, stg1) = reported (s, stg) + mset errs"
       "(\<forall>e. onError ep e = None) \<and> rejection f = None \<longrightarrow> rej1 = None"
    by blast
  have m: "map fst ((tasks f)[i := (s, stg1)]) = map fst (tasks f)"
  proof -
    have "map fst ((tasks f)[i := (s, stg1)]) = (map fst (tasks f))[i := s]"
      by (simp add: map_update)
    also have "\<dots> = map fst (tasks f)"
      using True t by (simp add: list_update_same_conv)
    finally show ?thesis .
  qed
  have l: "list_all (consistent srv ev) ((tasks f)[i := (s, stg1)])"
    using c e(1) True by (simp add: list_all_length nth_list_update)
  have s1: "sum_list (map (sent srv ev) ((tasks f)[i := (s, stg1)])) =
            sum_list (map (sent srv ev) (tasks f)) + mset new"
    by (rule sum_list_map_grow [OF True]) (simp add: t e(3))
  have s2: "sum_list (map reported ((tasks f)[i := (s, stg1)])) =
            sum_list (map reported (tasks f)) + mset errs"
    by (rule sum_list_map_grow [OF True]) (simp add: t e(5))
  show ?thesis
    unfolding st using m l s1 s2 e(2,4,6) by simp
qed

lemma fold_step_effect:
  assumes "list_all (consistent srv ev) (tasks f)"
  shows "map fst (tasks (fold (step ep srv ev) sch f)) = map fst (tasks f) \<and>
         list_all (consistent srv ev) (tasks (fold (step ep srv ev) sch f)) \<and>
         (\<exists>new. sendCalls (dispatch (fold (step ep srv ev) sch f)) = sendCalls (dispatch f) @ new \<and>
            sum_list (map (sent srv ev) (tasks (fold (step ep srv ev) sch f))) =
            sum_list (map (sent srv ev) (tasks f)) + mset new) \<and>
         (\<exists>errs. onErrorCalls (dispatch (fold (step ep srv ev) sch f)) =
              onErrorCalls (dispatch f) @ errs \<and>
            sum_list (map reported (tasks (fold (step ep srv ev) sch f))) =
            sum_list (map reported (tasks f)) + mset errs) \<and>
         ((\<forall>e. onError ep e = None) \<and> rejection f = None \<longrightarrow>
            rejection (fold (step ep srv ev) sch f) = None)"
  using assms
proof (induction sch arbitrary: f)
  case Nil
  then show ?case by simp
next
  case (Cons i sch)
  let ?g = "step ep srv ev i f"
  from step_effect [OF Cons.prems, where ep=ep and i=i] obtain n1 e1 where
    g: "map fst (tasks ?g) = map fst (tasks f)"
       "list_all (consistent srv ev) (tasks ?g)"
       "sendCalls (dispatch ?g) = sendCalls (dispatch f) @ n1"
       "sum_list (map (sent srv ev) (tasks ?g)) = sum_list (map (sent srv ev) (tasks f)) + mset n1"
       "onErrorCalls (dispatch ?g) = onErrorCalls (dispatch f) @ e1"
       "sum_list (map reported (tasks ?g)) = sum_list (map reported (tasks f)) + mset e1"
       "(\<forall>e. onError ep e = None) \<and> rejection f = None \<longrightarrow> rejection ?g = None"
    by blast
  let ?h = "fold (step ep srv ev) sch ?g"
  from Cons.IH [OF g(2)] obtain n2 e2 where
    h: "map fst (tasks ?h) = map fst (tasks ?g)"
       "list_all (consistent srv ev) (tasks ?h)"
       "sendCalls (dispatch ?h) = sendCalls (dispatch ?g) @ n2"
       "sum_list (map (sent srv ev) (tasks ?h)) = sum_list (map (sent srv ev) (tasks ?g)) + mset n2"
       "onErrorCalls (dispatch ?h) = onErrorCalls (dispatch ?g) @ e2"
       "sum_list (map reported (tasks ?h)) = sum_list (map reported (tasks ?g)) + mset e2"
       "(\<forall>e. onError ep e = None) \<and> rejection ?g = None \<longrightarrow> rejection ?h = None"
    by blast
  have "sendCalls (dispatch ?h) = sendCalls (dispatch f) @ (n1 @ n2)"
    using g(3) h(3) by simp
  moreover have "sum_list (map (sent srv ev) (tasks ?h)) =
      sum_list (map (sent srv ev) (tasks f)) + mset (n1 @ n2)"
    using g(4) h(4) by simp
  moreover have "onErrorCalls (dispatch ?h) = onErrorCalls (dispatch f) @ (e1 @ e2)"
    using g(5) h(5) by simp
  moreover have "sum_list (map reported (tasks ?h)) =
      sum_list (map reported (tasks f)) + mset (e1 @ e2)"
    using g(6) h(6) by simp
  moreover have "map fst (tasks ?h) = map fst (tasks f)"
    using g(1) h(1) by simp
  moreover have "(\<forall>e. onError ep e = None) \<and> rejection f = None \<longrightarrow> rejection ?h = None"
    using g(7) h(7) by blast
  ultimately show ?case using h(2) by (simp del: mset_append)
qed

lemma finished_rank: "finished (s, stg) = (3 \<le> rank stg)"
  by (cases stg) simp_all

lemma step_length [simp]: "length (tasks (step ep srv ev i f)) = length (tasks f)"
  by (simp add: step_def split: prod.splits)

lemma step_rank:
  assumes c: "list_all (consistent srv ev) (tasks f)" and j: "j < length (tasks f)"
  shows "min 3 (rank (snd (tasks f ! j)) + (if i = j then 1 else 0))
           \<le> rank (snd (tasks (step ep srv ev i f) ! j))"
proof (cases "i < length (tasks f)")
  case False
  with j show ?thesis by simp
next
  case True
  obtain s stg where t: "tasks f ! i = (s, stg)" by (cases "tasks f ! i")
  obtain stg1 st1 rej1 where a: "advance ep srv ev s stg (dispatch f) (rejection f) = (stg1, st1, rej1)"
    by (cases "advance ep srv ev s stg (dispatch f) (rejection f)")
  have st: "tasks (step ep srv ev i f) = (tasks f)[i := (s, stg1)]"
    using True t a by (simp add: step_def)
  from c True t have ct: "consistent srv ev (s, stg)"
    by (metis list_all_length)
  from advance_effect [OF a ct]
  have r: "rank stg \<le> rank stg1" "rank stg < 3 \<longrightarrow> rank stg < rank stg1"
    by simp_all
  show ?thesis
  proof (cases "i = j")
    case True
    with st j t r show ?thesis by auto
  next
    case False
    with st j show ?thesis by simp
  qed
qed

lemma fold_step_rank:
  assumes "list_all (consistent srv ev) (tasks f)" and "j < length (tasks f)"
  shows "min 3 (rank (snd (tasks f ! j)) + count_list sch j)
           \<le> rank (snd (tasks (fold (step ep srv ev) sch f) ! j))"
  using assms
proof (induction sch arbitrary: f)
  case Nil
  then show ?case by simp
next
  case (Cons i sch)
  let ?g = "step ep srv ev i f"
  have cg: "list_all (consistent srv ev) (tasks ?g)"
    using step_effect [OF Cons.prems(1), where ep=ep and i=i] by simp
  have jg: "j < length (tasks ?g)" using Cons.prems(2) by simp
  from step_rank [OF Cons.prems, where ep=ep and i=i]
  have a: "min 3 (rank (snd (tasks f ! j)) + (if i = j then 1 else 0)) \<le> rank (snd (tasks ?g ! j))" .
  from Cons.IH [OF cg jg]
  have b: "min 3 (rank (snd (tasks ?g ! j)) + count_list sch j)
             \<le> rank (snd (tasks (fold (step ep srv ev) sch ?g) ! j))" .
  from a b show ?case by (simp split: if_splits)
qed

lemma fanout_consistent: "list_all (consistent srv ev) (tasks (fanout subs st))"
  by (simp add: fanout_def list_all_iff)

lemma fanout_sums [simp]:
  "sum_list (map (sent srv ev) (tasks (fanout subs st))) = {#}"
  "sum_list (map reported (tasks (fanout subs st))) = {#}"
  "map fst (tasks (fanout subs st)) = subs"
  "dispatch (fanout subs st) = st"
  "rejection (fanout subs st) = None"
  by (induction subs) (simp_all add: fanout_def comp_def)

lemma fair_finishes:
  assumes fair: "list_all (\<lambda>i. 3 \<le> count_list sch i) [0..<length subs]"
  shows "list_all finished (tasks (run ep srv ev sch subs st))"
proof -
  let ?f = "fanout subs st"
  let ?g = "fold (step ep srv ev) sch ?f"
  have len: "length (tasks ?g) = length subs"
    using fold_step_effect [OF fanout_consistent [of srv ev subs st], where ep=ep and sch=sch]
    by (metis fanout_sums(3) length_map)
  have "finished (tasks ?g ! j)" if j: "j < length subs" for j
  proof -
    have jf: "j < length (tasks ?f)" using j by (simp add: fanout_def)
    from fair j have "3 \<le> count_list sch j" by (simp add: list_all_iff)
    with fold_step_rank [OF fanout_consistent [of srv ev subs st] jf, where ep=ep and sch=sch]
    have "3 \<le> rank (snd (tasks ?g ! j))" by simp
    then show ?thesis by (cases "tasks ?g ! j") (simp add: finished_rank)
  qed
  with len show ?thesis by (simp add: run_def list_all_length)
qed

lemma sent_when_finished:
  "list_all finished pool \<Longrightarrow>
   image_mset (\<lambda>c. (to c, message c)) (sum_list (map (sent srv ev) pool)) =
     mset (map (\<lambda>s. (connection s, envelope srv s (result_value srv ev s)))
            (filter (delivers srv ev) (map fst pool)))"
proof (induction pool)
  case Nil
  then show ?case by simp
next
  case (Cons t pool)
  obtain s stg where t: "t = (s, stg)" by (cases t)
  with Cons.prems obtain b c where stg: "stg = Done b c" by (cases stg) simp_all
  from Cons t stg show ?case by (simp add: call_of_def)
qed

lemma reported_when_finished:
  "list_all finished pool \<Longrightarrow>
   size (sum_list (map reported pool)) = length (filter rejected pool)"
proof (induction pool)
  case Nil
  then show ?case by simp
next
  case (Cons t pool)
  obtain s stg where t: "t = (s, stg)" by (cases t)
  with Cons.prems obtain b c where stg: "stg = Done b c" by (cases stg) simp_all
  from Cons t stg show ?case by (cases b) simp_all
qed

lemma outcomes_when_finished:
  "list_all finished pool \<Longrightarrow> list_all (consistent srv ev) pool \<Longrightarrow>
   size (filter_mset (\<lambda>c. \<not> isl (settled c)) (sum_list (map (sent srv ev) pool))) +
     length (filter (skips srv ev) (map fst pool)) + length (filter rejected pool) = length pool"
proof (induction pool)
  case Nil
  then show ?case by simp
next
  case (Cons t pool)
  obtain s stg where t: "t = (s, stg)" by (cases t)
  with Cons.prems obtain b c where stg: "stg = Done b c" by (cases stg) simp_all
  from Cons.prems t stg have k: "consistent srv ev (s, Done b c)"
    by simp
  have one: "size (filter_mset (\<lambda>c. \<not> isl (settled c)) (sent srv ev (s, Done b c))) +
      (if skips srv ev s then 1 else 0) + (if isl b then 1 else 0) = (1::nat)"
  proof (cases "resolution srv ev s")
    case (Inl e)
    with k show ?thesis by (simp add: throws_def skips_def delivers_def)
  next
    case (Inr res)
    with k show ?thesis
      by (cases res) (simp_all add: throws_def skips_def delivers_def call_of_def)
  qed
  from Cons t stg one show ?case by (simp split: if_splits)
qed

lemma unsent_routed:
  "consistent srv ev t \<Longrightarrow> unsent srv ev t \<Longrightarrow> routed srv ev m t"
proof -
  obtain s stg where "t = (s, stg)" by (cases t)
  then show "consistent srv ev t \<Longrightarrow> unsent srv ev t \<Longrightarrow> routed srv ev m t"
    by (cases stg) auto
qed

lemma after_post_posted:
  "fst (sendToConnection_after_post (post m (id_conn c) msg) c cm) = posted post m (c, msg) \<and>
   apiGatewayManager (snd (sendToConnection_after_post (post m (id_conn c) msg) c cm)) =
     apiGatewayManager cm"
  by (simp add: sendToConnection_after_post_def posted_def unregisterConnection_def
        split: option.splits)

lemma advance_with_client:
  assumes a: "advance ep srv ev s stg st rej = (stg1, st1, rej1)"
    and c: "consistent srv ev (s, stg)"
    and m: "apiGatewayManager (connectionManager st) = Some m"
    and r: "routed srv ev m (s, stg)"
  shows "apiGatewayManager (connectionManager st1) = Some m \<and> routed srv ev m (s, stg1)"
proof (cases stg)
  case Running
  with a m show ?thesis
    by (auto simp: advance_def createApiGatewayManager_def Let_def delivers_def
          split: sum.splits option.splits)
next
  case (Posting msg m')
  with r have mm: "m' = m" by simp
  from c Posting have d: "delivers srv ev s" and msg: "msg = envelope srv s (result_value srv ev s)"
    by simp_all
  let ?sp = "sendToConnection_after_post
      (postToConnection srv m (id_conn (connection s)) msg) (connection s) (connectionManager st)"
  from after_post_posted [of "postToConnection srv" m "connection s" msg "connectionManager st"]
  have p: "fst ?sp = posted (postToConnection srv) m (connection s, msg)"
    and k: "apiGatewayManager (snd ?sp) = apiGatewayManager (connectionManager st)"
    by simp_all
  from a Posting mm have
    "stg1 = (case fst ?sp of Inl e \<Rightarrow> Rejected e | Inr u \<Rightarrow> Done (Inr u) (Inr u))"
    and "connectionManager st1 = snd ?sp"
    by (auto simp: advance_def Let_def split_beta split: sum.splits)
  with p k m msg show ?thesis
    by (auto split: sum.splits)
next
  case (Rejected e)
  with a m r show ?thesis
    by (cases "onError ep e") (auto simp: advance_def)
next
  case (Done b c')
  with a m r show ?thesis
    by (auto simp: advance_def)
qed

lemma advance_without_client:
  assumes a: "advance ep srv ev s stg st rej = (stg1, st1, rej1)"
    and c: "consistent srv ev (s, stg)"
    and n: "apiGatewayManager (connectionManager st) = None"
    and u: "unsent srv ev (s, stg)"
  shows "(apiGatewayManager (connectionManager st1) = None \<and> unsent srv ev (s, stg1)) \<or>
         (\<exists>m. apiGatewayManager (connectionManager st1) = Some m \<and> routed srv ev m (s, stg1))"
proof (cases stg)
  case Running
  with a n show ?thesis
    by (auto simp: advance_def createApiGatewayManager_def Let_def delivers_def
          split: sum.splits option.splits)
next
  case (Posting msg m')
  with c u show ?thesis by simp
next
  case (Rejected e)
  with a n u show ?thesis
    by (cases "onError ep e") (auto simp: advance_def)
next
  case (Done b c')
  with a n u show ?thesis
    by (auto simp: advance_def)
qed

lemma list_all_update:
  "list_all P xs \<Longrightarrow> P y \<Longrightarrow> list_all P (xs[i := y])"
  by (cases "i < length xs") (simp_all add: list_all_length nth_list_update)

lemma step_one_client:
  assumes c: "list_all (consistent srv ev) (tasks f)"
    and o: "one_client srv ev f"
  shows "one_client srv ev (step ep srv ev i f) \<and>
         (\<forall>m. apiGatewayManager (connectionManager (dispatch f)) = Some m \<longrightarrow>
            apiGatewayManager (connectionManager (dispatch (step ep srv ev i f))) = Some m)"
proof (cases "i < length (tasks f)")
  case False
  then show ?thesis using o by simp
next
  case True
  obtain s stg where t: "tasks f ! i = (s, stg)" by (cases "tasks f ! i")
  obtain stg1 st1 rej1 where a: "advance ep srv ev s stg (dispatch f) (rejection f) = (stg1, st1, rej1)"
    by (cases "advance ep srv ev s stg (dispatch f) (rejection f)")
  have st: "step ep srv ev i f =
      \<lparr> tasks = (tasks f)[i := (s, stg1)], dispatch = st1, rejection = rej1 \<rparr>"
    using True t a by (simp add: step_def)
  from c True t have ct: "consistent srv ev (s, stg)"
    by (metis list_all_length)
  show ?thesis
  proof (cases "apiGatewayManager (connectionManager (dispatch f))")
    case (Some m)
    with o have all: "list_all (routed srv ev m) (tasks f)"
      by (simp add: one_client_def)
    with True t have "routed srv ev m (s, stg)"
      by (metis list_all_length)
    from advance_with_client [OF a ct Some this]
    have k: "apiGatewayManager (connectionManager st1) = Some m" and r: "routed srv ev m (s, stg1)"
      by simp_all
    from list_all_update [OF all r, of i] k Some show ?thesis
      unfolding st by (simp add: one_client_def)
  next
    case None
    with o have all: "list_all (unsent srv ev) (tasks f)"
      by (simp add: one_client_def)
    with True t have "unsent srv ev (s, stg)"
      by (metis list_all_length)
    from advance_without_client [OF a ct None this] show ?thesis
    proof (elim disjE exE conjE)
      assume n1: "apiGatewayManager (connectionManager st1) = None"
        and u1: "unsent srv ev (s, stg1)"
      from list_all_update [OF all u1, of i] n1 None show ?thesis
        unfolding st by (simp add: one_client_def)
    next
      fix m
      assume k1: "apiGatewayManager (connectionManager st1) = Some m"
        and r1: "routed srv ev m (s, stg1)"
      have "list_all (routed srv ev m) (tasks f)"
        using c all by (auto simp: list_all_iff intro: unsent_routed)
      from list_all_update [OF this r1, of i] k1 None show ?thesis
        unfolding st by (simp add: one_client_def)
    qed
  qed
qed

lemma fold_step_one_client:
  assumes "list_all (consistent srv ev) (tasks f)" and "one_client srv ev f"
  shows "one_client srv ev (fold (step ep srv ev) sch f) \<and>
         (\<forall>m. apiGatewayManager (connectionManager (dispatch f)) = Some m \<longrightarrow>
            apiGatewayManager (connectionManager (dispatch (fold (step ep srv ev) sch f))) = Some m)"
  using assms
proof (induction sch arbitrary: f)
  case Nil
  then show ?case by simp
next
  case (Cons i sch)
  let ?g = "step ep srv ev i f"
  have cg: "list_all (consistent srv ev) (tasks ?g)"
    using step_effect [OF Cons.prems(1), where ep=ep and i=i] by simp
  from step_one_client [OF Cons.prems, where ep=ep and i=i]
  have og: "one_client srv ev ?g"
    and kg: "\<forall>m. apiGatewayManager (connectionManager (dispatch f)) = Some m \<longrightarrow>
            apiGatewayManager (connectionManager (dispatch ?g)) = Some m"
    by simp_all
  from Cons.IH [OF cg og] kg show ?case by simp
qed

lemma fanout_one_client: "one_client srv ev (fanout subs st)"
  by (simp add: one_client_def fanout_def list_all_iff split: option.splits)

lemma in_sum_list:
  fixes F :: "'a \<Rightarrow> 'b multiset"
  shows "c \<in># sum_list (map F xs) \<Longrightarrow> \<exists>x \<in> set xs. c \<in># F x"
  by (induction xs) auto

lemma sent_calls_routed:
  assumes o: "one_client srv ev f"
    and c: "c \<in># sum_list (map (sent srv ev) (tasks f))"
  shows "\<exists>m. apiGatewayManager (connectionManager (dispatch f)) = Some m \<and>
           settled c = posted (postToConnection srv) m (to c, message c)"
proof -
  from in_sum_list [OF c] obtain t where t: "t \<in> set (tasks f)" and ct: "c \<in># sent srv ev t"
    by blast
  obtain s stg where ts: "t = (s, stg)" by (cases t)
  from ct ts have d: "delivers srv ev s" and nr: "stg \<noteq> Running"
    by (cases stg; simp split: if_splits)+
  show ?thesis
  proof (cases "apiGatewayManager (connectionManager (dispatch f))")
    case None
    with o t ts have "unsent srv ev (s, stg)"
      by (auto simp: one_client_def list_all_iff)
    with d nr show ?thesis by simp
  next
    case (Some m)
    with o t ts have r: "routed srv ev m (s, stg)"
      by (auto simp: one_client_def list_all_iff)
    from ct ts d r have "settled c = posted (postToConnection srv) m (to c, message c)"
      by (cases stg) (auto simp: call_of_def)
    with Some show ?thesis by simp
  qed
qed

lemma reported_split:
  "list_all finished pool \<Longrightarrow> list_all (consistent srv ev) pool \<Longrightarrow>
   sum_list (map reported pool) =
     mset (concat (map (thrown srv ev) (map fst pool))) +
     sum_mset (image_mset (\<lambda>c. mset (raised c)) (sum_list (map (sent srv ev) pool)))"
proof (induction pool)
  case Nil
  then show ?case by simp
next
  case (Cons t pool)
  obtain s stg where t: "t = (s, stg)" by (cases t)
  with Cons.prems obtain b c where stg: "stg = Done b c" by (cases stg) simp_all
  from Cons.prems t stg have k: "consistent srv ev (s, Done b c)"
    by simp
  have one: "reported (s, Done b c) =
      mset (thrown srv ev s) +
      sum_mset (image_mset (\<lambda>c. mset (raised c)) (sent srv ev (s, Done b c)))"
  proof (cases "resolution srv ev s")
    case (Inl e)
    with k show ?thesis by (simp add: thrown_def delivers_def)
  next
    case (Inr res)
    with k show ?thesis
      by (cases res; cases b) (simp_all add: thrown_def delivers_def call_of_def raised_def)
  qed
  from Cons t stg one show ?case by (simp add: ac_simps)
qed

lemma raised_of_list:
  "sum_mset (image_mset (\<lambda>c. mset (raised c)) (mset new)) = mset (concat (map raised new))"
  by (induction new) simp_all

text \<open>
  Claim C3, amended. For the one batch \<open>subs\<close> of an event and every schedule \<open>sch\<close> of
  its branches: a schedule that offers every branch three steps finishes them all; and
  when all have finished, the handler has returned; \<^verbatim>\<open>sendToConnection\<close> has been
  called exactly once for each subscriber whose execution gives a non-null value, on
  that subscriber's connection and envelope; each of these calls settled as the post
  through the one transport client did, and a client that existed before is that client;
  \<^verbatim>\<open>onError\<close> has been called exactly with the exceptions of the executions that
  threw and the errors the sends raised, once for each rejected branch; the calls that
  resolved, the branches with nothing to send and the rejected branches add up to the
  number of subscribers; and the handler has resolved when \<^verbatim>\<open>onError\<close> does not throw.
\<close>

theorem createHandler_isolates_failures:
  assumes batch: "subscribersByEvent sm ev = [subs]"
    and f: "run ep srv ev sch subs st = f"
  shows "(list_all (\<lambda>i. 3 \<le> count_list sch i) [0..<length subs] \<longrightarrow> list_all finished (tasks f)) \<and>
         (list_all finished (tasks f) \<longrightarrow>
            createHandler ep srv sm ev [sch] st =
              Some (case rejection f of None \<Rightarrow> Inr () | Some e \<Rightarrow> Inl e, dispatch f) \<and>
            map fst (tasks f) = subs \<and>
            mset (map (\<lambda>c. (to c, message c)) (drop (length (sendCalls st)) (sendCalls (dispatch f)))) =
              mset (map (\<lambda>s. (connection s, envelope srv s (result_value srv ev s)))
                     (filter (delivers srv ev) subs)) \<and>
            (\<forall>c \<in> set (drop (length (sendCalls st)) (sendCalls (dispatch f))).
               \<exists>m. apiGatewayManager (connectionManager (dispatch f)) = Some m \<and>
                   settled c = posted (postToConnection srv) m (to c, message c)) \<and>
            (\<forall>m. apiGatewayManager (connectionManager st) = Some m \<longrightarrow>
               apiGatewayManager (connectionManager (dispatch f)) = Some m) \<and>
            mset (drop (length (onErrorCalls st)) (onErrorCalls (dispatch f))) =
              mset (concat (map (thrown srv ev) subs) @
                    concat (map raised (drop (length (sendCalls st)) (sendCalls (dispatch f))))) \<and>
            length (onErrorCalls (dispatch f)) =
              length (onErrorCalls st) + length (filter rejected (tasks f)) \<and>
            length (filter (\<lambda>c. \<not> isl (settled c))
                (drop (length (sendCalls st)) (sendCalls (dispatch f)))) +
              length (filter (skips srv ev) subs) + length (filter rejected (tasks f)) = length subs \<and>
            ((\<forall>e. onError ep e = None) \<longrightarrow>
               createHandler ep srv sm ev [sch] st = Some (Inr (), dispatch f)))"
proof -
  have fair: "list_all finished (tasks f)"
    if "list_all (\<lambda>i. 3 \<le> count_list sch i) [0..<length subs]"
    using fair_finishes [OF that, of ep srv ev st] f by simp
  have rest: "createHandler ep srv sm ev [sch] st =
              Some (case rejection f of None \<Rightarrow> Inr () | Some e \<Rightarrow> Inl e, dispatch f) \<and>
            map fst (tasks f) = subs \<and>
            mset (map (\<lambda>c. (to c, message c)) (drop (length (sendCalls st)) (sendCalls (dispatch f)))) =
              mset (map (\<lambda>s. (connection s, envelope srv s (result_value srv ev s)))
                     (filter (delivers srv ev) subs)) \<and>
            (\<forall>c \<in> set (drop (length (sendCalls st)) (sendCalls (dispatch f))).
               \<exists>m. apiGatewayManager (connectionManager (dispatch f)) = Some m \<and>
                   settled c = posted (postToConnection srv) m (to c, message c)) \<and>
            (\<forall>m. apiGatewayManager (connectionManager st) = Some m \<longrightarrow>
               apiGatewayManager (connectionManager (dispatch f)) = Some m) \<and>
            mset (drop (length (onErrorCalls st)) (onErrorCalls (dispatch f))) =
              mset (concat (map (thrown srv ev) subs) @
                    concat (map raised (drop (length (sendCalls st)) (sendCalls (dispatch f))))) \<and>
            length (onErrorCalls (dispatch f)) =
              length (onErrorCalls st) + length (filter rejected (tasks f)) \<and>
            length (filter (\<lambda>c. \<not> isl (settled c))
                (drop (length (sendCalls st)) (sendCalls (dispatch f)))) +
              length (filter (skips srv ev) subs) + length (filter rejected (tasks f)) = length subs \<and>
            ((\<forall>e. onError ep e = None) \<longrightarrow>
               createHandler ep srv sm ev [sch] st = Some (Inr (), dispatch f))"
    if fin: "list_all finished (tasks f)"
  proof -
    have f': "f = fold (step ep srv ev) sch (fanout subs st)"
      using f by (simp add: run_def)
    from fold_step_effect [OF fanout_consistent [of srv ev subs st], where ep=ep and sch=sch]
    obtain new errs where
      i: "map fst (tasks f) = subs"
         "list_all (consistent srv ev) (tasks f)"
         "sendCalls (dispatch f) = sendCalls st @ new"
         "sum_list (map (sent srv ev) (tasks f)) = mset new"
         "onErrorCalls (dispatch f) = onErrorCalls st @ errs"
         "sum_list (map reported (tasks f)) = mset errs"
         "(\<forall>e. onError ep e = None) \<longrightarrow> rejection f = None"
      unfolding f' [symmetric] by auto
    from fold_step_one_client
           [OF fanout_consistent [of srv ev subs st] fanout_one_client [of srv ev subs st],
            where ep=ep and sch=sch]
    have o: "one_client srv ev f"
      and keep: "\<forall>m. apiGatewayManager (connectionManager st) = Some m \<longrightarrow>
               apiGatewayManager (connectionManager (dispatch f)) = Some m"
      unfolding f' [symmetric] by simp_all
    have h: "createHandler ep srv sm ev [sch] st =
              Some (case rejection f of None \<Rightarrow> Inr () | Some e \<Rightarrow> Inl e, dispatch f)"
      using batch f fin
      by (simp add: createHandler_def Promise_all_def Let_def split: option.splits)
    have d: "drop (length (sendCalls st)) (sendCalls (dispatch f)) = new"
      using i(3) by simp
    have d': "drop (length (onErrorCalls st)) (onErrorCalls (dispatch f)) = errs"
      using i(5) by simp
    have a: "mset (map (\<lambda>c. (to c, message c)) new) =
              mset (map (\<lambda>s. (connection s, envelope srv s (result_value srv ev s)))
                     (filter (delivers srv ev) subs))"
      using sent_when_finished [OF fin, of srv ev] i(1,4) by simp
    have via: "\<forall>c \<in> set new. \<exists>m. apiGatewayManager (connectionManager (dispatch f)) = Some m \<and>
                   settled c = posted (postToConnection srv) m (to c, message c)"
    proof
      fix c assume "c \<in> set new"
      then have "c \<in># sum_list (map (sent srv ev) (tasks f))"
        using i(4) by simp
      from sent_calls_routed [OF o this]
      show "\<exists>m. apiGatewayManager (connectionManager (dispatch f)) = Some m \<and>
                   settled c = posted (postToConnection srv) m (to c, message c)" .
    qed
    have es: "mset errs = mset (concat (map (thrown srv ev) subs) @ concat (map raised new))"
      using reported_split [OF fin i(2)] i(1,4,6) by (simp add: raised_of_list)
    have b: "length errs = length (filter rejected (tasks f))"
      using reported_when_finished [OF fin] i(6) by simp
    have "size (filter_mset (\<lambda>c. \<not> isl (settled c)) (mset new)) +
            length (filter (skips srv ev) subs) + length (filter rejected (tasks f)) =
          length (tasks f)"
      using outcomes_when_finished [OF fin i(2)] i(1,4) by simp
    moreover have "length (tasks f) = length subs"
      using i(1) by (metis length_map)
    ultimately have c: "length (filter (\<lambda>c. \<not> isl (settled c)) new) +
            length (filter (skips srv ev) subs) + length (filter rejected (tasks f)) = length subs"
      by (simp flip: mset_filter)
    have r: "createHandler ep srv sm ev [sch] st = Some (Inr (), dispatch f)"
      if "\<forall>e. onError ep e = None"
      using h i(7) that by simp
    have len: "length (onErrorCalls (dispatch f)) =
              length (onErrorCalls st) + length (filter rejected (tasks f))"
      using i(5) b by simp
    show ?thesis
      unfolding d d' using h i(1) a via keep es len c r by blast
  qed
  from fair rest show ?thesis by blast
qed

lemmas sample_defs =
  manager_with_def new_SubscriptionManager_def new_EventProcessor_def
  new_ApiGatewayConnectionManager_def chat_def subscriber_of_def conn_def oper_def fresh_def
  sample_server_def

lemmas handler_defs =
  createHandler_def subscribersByEvent_def Promise_all_def run_def fanout_def step_def
  advance_def resolution_def sendToConnection_after_post_def createApiGatewayManager_def
  unregisterConnection_def Let_def

lemma crowd_batch:
  "subscribersByEvent crowd chat =
     [[subscriber_of ''chat'' (conn ''a'' ''wss://one'') (oper ''ok'' ''1''),
       subscriber_of ''chat'' (conn ''b'' ''wss://one'') (oper ''throw'' ''2''),
       subscriber_of ''chat'' (conn ''c'' ''wss://one'') (oper ''null'' ''3''),
       subscriber_of ''chat'' (conn ''down'' ''wss://one'') (oper ''ok'' ''4''),
       subscriber_of ''chat'' (conn ''gone'' ''wss://one'') (oper ''ok'' ''5'')]]"
  by (simp add: crowd_def subscribersByEvent_def manager_with_def new_SubscriptionManager_def
        chat_def subscriber_of_def)

lemma crowd_run:
  "map snd (tasks (run (new_EventProcessor None None) sample_server chat interleaved
     (concat (subscribersByEvent crowd chat)) fresh)) =
     [Done (Inr ()) (Inr ()),
      Done (Inl (Thrown None ''resolver'')) (Inr ()),
      Done (Inr ()) (Inr ()),
      Done (Inl (Thrown (Some 500) ''Internal'')) (Inr ()),
      Done (Inr ()) (Inr ())] \<and>
   map (\<lambda>c. id_conn (to c)) (sendCalls (dispatch (run (new_EventProcessor None None) sample_server chat
     interleaved (concat (subscribersByEvent crowd chat)) fresh))) = [''a'', ''down'', ''gone''] \<and>
   onErrorCalls (dispatch (run (new_EventProcessor None None) sample_server chat
     interleaved (concat (subscribersByEvent crowd chat)) fresh)) =
     [Thrown None ''resolver'', Thrown (Some 500) ''Internal'']"
  unfolding crowd_batch interleaved_def
  by (simp add: sample_defs handler_defs eval_nat_numeral)

text \<open>
  Claim C3 as first stated (exactly N - M sends) fails for one subscriber whose execution
  gives a null value: no branch rejects, and no send is made.
\<close>

theorem createHandler_send_count_counterexample:
  "subscribersByEvent quiet chat =
     [[subscriber_of ''chat'' (conn ''a'' ''wss://one'') (oper ''null'' ''1'')]] \<and>
   createHandler (new_EventProcessor None None) sample_server quiet chat [[0]] fresh =
     Some (Inr (), fresh) \<and>
   filter rejected (tasks (run (new_EventProcessor None None) sample_server chat [0]
     (concat (subscribersByEvent quiet chat)) fresh)) = [] \<and>
   length (sendCalls fresh) \<noteq>
     length (concat (subscribersByEvent quiet chat)) -
     length (filter rejected (tasks (run (new_EventProcessor None None) sample_server chat [0]
       (concat (subscribersByEvent quiet chat)) fresh)))"
  by (simp add: quiet_def sample_defs handler_defs)

text \<open>
  Why the handler's own result depends on the callback: with an \<^verbatim>\<open>onError\<close> that
  throws what it is given, the first branch to reject rejects the handler.
\<close>

lemma createHandler_rejects_when_onError_throws:
  "map_option fst (createHandler (new_EventProcessor (Some (\<lambda>e. Some e)) None) sample_server crowd chat
     [interleaved] fresh) = Some (Inl (Thrown None ''resolver''))"
  unfolding createHandler_def crowd_batch interleaved_def
  by (simp add: sample_defs handler_defs eval_nat_numeral)

text \<open>
  Which sends fail depends on the schedule: with \<open>a\<close> at \<open>wss://one\<close> and \<open>b\<close> at
  \<open>wss://two\<close>, both sends fail when \<open>a\<close> is first to obtain the client, and none
  when \<open>b\<close> is.
\<close>

lemma failures_depend_on_schedule:
  "length (filter rejected (tasks (run (new_EventProcessor None None) picky_server chat
     [0, 1, 0, 1, 0, 1] (concat (subscribersByEvent two_on_chat chat)) fresh))) = 2 \<and>
   length (filter rejected (tasks (run (new_EventProcessor None None) picky_server chat
     [1, 0, 1, 0] (concat (subscribersByEvent two_on_chat chat)) fresh))) = 0"
  by (simp add: two_on_chat_def picky_server_def sample_defs handler_defs eval_nat_numeral)

text \<open>
  Claim C3, amended, at five subscribers under a schedule that interleaves them: two
  branches reject (one in execution, one in the send), three sends are made, two of them
  resolve, one branch has nothing to send.
\<close>

theorem createHandler_isolates_failures_witness:
  "subscribersByEvent crowd chat = [concat (subscribersByEvent crowd chat)] \<and>
   length (concat (subscribersByEvent crowd chat)) = 5 \<and>
   list_all (\<lambda>i. 3 \<le> count_list thrice i) [0..<length (concat (subscribersByEvent crowd chat))] \<and>
   list_all finished (tasks (run (new_EventProcessor None None) sample_server chat thrice
     (concat (subscribersByEvent crowd chat)) fresh)) \<and>
   list_all finished (tasks (run (new_EventProcessor None None) sample_server chat interleaved
     (concat (subscribersByEvent crowd chat)) fresh)) \<and>
   (\<forall>e. onError (new_EventProcessor None None) e = None) \<and>
   length (filter rejected (tasks (run (new_EventProcessor None None) sample_server chat interleaved
     (concat (subscribersByEvent crowd chat)) fresh))) = 2 \<and>
   createHandler (new_EventProcessor None None) sample_server crowd chat [interleaved] fresh =
     Some (Inr (), dispatch (run (new_EventProcessor None None) sample_server chat interleaved
       (concat (subscribersByEvent crowd chat)) fresh)) \<and>
   length (onErrorCalls (dispatch (run (new_EventProcessor None None) sample_server chat interleaved
     (concat (subscribersByEvent crowd chat)) fresh))) = 2 \<and>
   mset (map (\<lambda>c. (to c, message c))
     (sendCalls (dispatch (run (new_EventProcessor None None) sample_server chat interleaved
       (concat (subscribersByEvent crowd chat)) fresh)))) =
     mset [(conn ''a'' ''wss://one'', ''data:1:hi''), (conn ''down'' ''wss://one'', ''data:4:hi''),
           (conn ''gone'' ''wss://one'', ''data:5:hi'')] \<and>
   length (filter (\<lambda>c. \<not> isl (settled c))
     (sendCalls (dispatch (run (new_EventProcessor None None) sample_server chat interleaved
       (concat (subscribersByEvent crowd chat)) fresh)))) = 2"
proof -
  let ?ep = "new_EventProcessor None None"
  let ?subs = "concat (subscribersByEvent crowd chat)"
  let ?f = "run ?ep sample_server chat interleaved ?subs fresh"
  let ?g = "run ?ep sample_server chat thrice ?subs fresh"
  have batch: "subscribersByEvent crowd chat = [?subs]"
    by (simp add: crowd_batch)
  have n: "length ?subs = 5"
    by (simp add: crowd_batch)
  have fair: "list_all (\<lambda>i. 3 \<le> count_list thrice i) [0..<length ?subs]"
    unfolding n by (simp add: thrice_def eval_nat_numeral)
  have fin: "list_all finished (tasks ?f)"
    unfolding crowd_batch interleaved_def
    by (simp add: sample_defs handler_defs eval_nat_numeral)
  have m: "length (filter rejected (tasks ?f)) = 2"
    unfolding crowd_batch interleaved_def
    by (simp add: sample_defs handler_defs eval_nat_numeral)
  have quiet_cb: "\<forall>e. onError ?ep e = None"
    by (simp add: new_EventProcessor_def)
  have d: "map (\<lambda>s. (connection s, envelope sample_server s (result_value sample_server chat s)))
             (filter (delivers sample_server chat) ?subs) =
           [(conn ''a'' ''wss://one'', ''data:1:hi''), (conn ''down'' ''wss://one'', ''data:4:hi''),
            (conn ''gone'' ''wss://one'', ''data:5:hi'')]"
    unfolding crowd_batch
    by (simp add: delivers_def resolution_def result_value_def envelope_def sample_defs)
  have k: "length (filter (skips sample_server chat) ?subs) = 1"
    unfolding crowd_batch
    by (simp add: skips_def resolution_def sample_defs)
  have z: "sendCalls fresh = [] \<and> onErrorCalls fresh = []"
    by (simp add: fresh_def)
  from createHandler_isolates_failures
         [where sm=crowd and ev=chat and subs="?subs" and srv=sample_server and st=fresh
            and ep="?ep" and sch=thrice and f="?g", OF batch refl] fair
  have fing: "list_all finished (tasks ?g)" by blast
  from createHandler_isolates_failures
         [where sm=crowd and ev=chat and subs="?subs" and srv=sample_server and st=fresh
            and ep="?ep" and sch=interleaved and f="?f", OF batch refl] fin quiet_cb
  have t: "createHandler ?ep sample_server crowd chat [interleaved] fresh = Some (Inr (), dispatch ?f)"
    "mset (map (\<lambda>c. (to c, message c)) (drop (length (sendCalls fresh)) (sendCalls (dispatch ?f)))) =
       mset (map (\<lambda>s. (connection s, envelope sample_server s (result_value sample_server chat s)))
              (filter (delivers sample_server chat) ?subs))"
    "length (onErrorCalls (dispatch ?f)) =
       length (onErrorCalls fresh) + length (filter rejected (tasks ?f))"
    "length (filter (\<lambda>c. \<not> isl (settled c)) (drop (length (sendCalls fresh)) (sendCalls (dispatch ?f)))) +
       length (filter (skips sample_server chat) ?subs) + length (filter rejected (tasks ?f)) =
     length ?subs"
    by blast+
  have e: "length (onErrorCalls (dispatch ?f)) = 2"
    using t(3) m z by simp
  have c: "length (filter (\<lambda>c. \<not> isl (settled c)) (sendCalls (dispatch ?f))) = 2"
    using t(4) m k n z by simp
  have s: "mset (map (\<lambda>c. (to c, message c)) (sendCalls (dispatch ?f))) =
     mset [(conn ''a'' ''wss://one'', ''data:1:hi''), (conn ''down'' ''wss://one'', ''data:4:hi''),
           (conn ''gone'' ''wss://one'', ''data:5:hi'')]"
    using t(2) d z by simp
  show ?thesis using batch n fair fing fin quiet_cb m t(1) e s c by blast
qed

text \<open>
  Claim C8 at the sample server: a subscriber on the stale connection \<open>gone\<close> gets the
  payload, the send is made and prunes \<open>gone\<close> from the registry; a subscriber that gets
  null leaves the state as it was.
\<close>

theorem branch_sends_iff_result_witness:
  "resolution sample_server chat
     (subscriber_of ''chat'' (conn ''gone'' ''wss://one'') (oper ''ok'' ''7'')) = Inr (Some ''hi'') \<and>
   connections (connectionManager busy) ''gone'' = Some (conn ''gone'' ''wss://one'') \<and>
   fst (branch sample_server chat
     (subscriber_of ''chat'' (conn ''gone'' ''wss://one'') (oper ''ok'' ''7'')) busy) = Inr () \<and>
   connections (connectionManager (snd (branch sample_server chat
     (subscriber_of ''chat'' (conn ''gone'' ''wss://one'') (oper ''ok'' ''7'')) busy))) ''gone'' = None \<and>
   apiGatewayManager (connectionManager (snd (branch sample_server chat
     (subscriber_of ''chat'' (conn ''gone'' ''wss://one'') (oper ''ok'' ''7'')) busy))) =
     Some \<lparr> endpoint_api = ''wss://one'', apiVersion = ''2018-11-29'' \<rparr> \<and>
   sendCalls (snd (branch sample_server chat
     (subscriber_of ''chat'' (conn ''gone'' ''wss://one'') (oper ''ok'' ''7'')) busy)) =
     [\<lparr> to = conn ''gone'' ''wss://one'', message = ''data:7:hi'', settled = Inr () \<rparr>] \<and>
   createGraphQLServerOptions sample_server chat (conn ''a'' ''wss://one'') (oper ''null'' ''7'') =
     Inr \<lparr> schema = ''s'', context_opts = ''{}'' \<rparr> \<and>
   execute sample_server \<lparr> schema = ''s'', context_opts = ''{}'' \<rparr> chat
     (conn ''a'' ''wss://one'') (oper ''null'' ''7'') = Inr (AsyncIterable (Inr None)) \<and>
   branch sample_server chat
     (subscriber_of ''chat'' (conn ''a'' ''wss://one'') (oper ''null'' ''7'')) busy = (Inr (), busy)"
proof -
  let ?ok = "subscriber_of ''chat'' (conn ''gone'' ''wss://one'') (oper ''ok'' ''7'')"
  let ?null = "subscriber_of ''chat'' (conn ''a'' ''wss://one'') (oper ''null'' ''7'')"
  let ?msg = "formatMessage sample_server
      \<lparr> id_msg = operationId ?ok, payload_msg = ''hi'', type_msg = GQL_DATA sample_server \<rparr>"
  let ?send = "sendToConnection (postToConnection sample_server) (connection ?ok) ?msg
      (connectionManager busy)"
  have r: "resolution sample_server chat ?ok = Inr (Some ''hi'')"
    by (simp add: resolution_def sample_defs)
  have g: "connections (connectionManager busy) ''gone'' = Some (conn ''gone'' ''wss://one'')"
    by (simp add: busy_def registry_def new_ApiGatewayConnectionManager_def)
  have msg: "?msg = ''data:7:hi''"
    by (simp add: sample_defs)
  have c: "connection ?ok = conn ''gone'' ''wss://one'' \<and> connection ?null = conn ''a'' ''wss://one'' \<and>
           operation ?null = oper ''null'' ''7''"
    by (simp add: subscriber_of_def)
  have s: "fst ?send = Inr () \<and> connections (snd ?send) ''gone'' = None \<and>
      apiGatewayManager (snd ?send) = Some \<lparr> endpoint_api = ''wss://one'', apiVersion = ''2018-11-29'' \<rparr>"
    by (simp add: sendToConnection_def createApiGatewayManager_def unregisterConnection_def
          busy_def registry_def sample_defs Let_def)
  have o: "createGraphQLServerOptions sample_server chat (conn ''a'' ''wss://one'') (oper ''null'' ''7'') =
     Inr \<lparr> schema = ''s'', context_opts = ''{}'' \<rparr>"
    by (simp add: sample_defs)
  have x: "execute sample_server \<lparr> schema = ''s'', context_opts = ''{}'' \<rparr> chat
     (conn ''a'' ''wss://one'') (oper ''null'' ''7'') = Inr (AsyncIterable (Inr None))"
    by (simp add: sample_defs)
  have z: "sendCalls busy = []" by (simp add: busy_def)
  from branch_sends_iff_result [of sample_server chat ?ok busy] r
  have b: "branch sample_server chat ?ok busy =
      (fst ?send,
       busy\<lparr> connectionManager := snd ?send,
             sendCalls := sendCalls busy @
               [\<lparr> to = connection ?ok, message = ?msg, settled = fst ?send \<rparr>] \<rparr>)"
    by blast
  have b1: "fst (branch sample_server chat ?ok busy) = Inr ()"
    unfolding b using s by simp
  have b2: "connections (connectionManager (snd (branch sample_server chat ?ok busy))) ''gone'' = None"
    unfolding b using s by simp
  have b3: "apiGatewayManager (connectionManager (snd (branch sample_server chat ?ok busy))) =
     Some \<lparr> endpoint_api = ''wss://one'', apiVersion = ''2018-11-29'' \<rparr>"
    unfolding b using s by simp
  have b4: "sendCalls (snd (branch sample_server chat ?ok busy)) =
     [\<lparr> to = conn ''gone'' ''wss://one'', message = ''data:7:hi'', settled = Inr () \<rparr>]"
    unfolding b using s msg c z by simp
  from branch_sends_iff_result [of sample_server chat ?null busy]
  have n: "branch sample_server chat ?null busy = (Inr (), busy)"
    using o x c by simp
  from r g b1 b2 b3 b4 o x n show ?thesis by blast
qed

end
